theory Spec2Isabelle
  imports Main "HOL-Library.Word"
begin

section \<open>Data model of the audio thread\<close>

text \<open>
  The embedding follows \<^verbatim>\<open>cras/src/server/audio_thread.c\<close>. Pointers to devices and
  streams are addresses into an explicit store; the intrusive utlist lists are HOL lists in
  traversal order. The structures \<^verbatim>\<open>cras_iodev\<close>, \<^verbatim>\<open>cras_rstream\<close>, \<^verbatim>\<open>dev_stream\<close> and
  \<^verbatim>\<open>open_dev\<close> are declared in headers outside the file; the records below carry the fields
  the file reads and writes.
\<close>

datatype CRAS_STREAM_DIRECTION = CRAS_STREAM_OUTPUT | CRAS_STREAM_INPUT

record timespec =
  tv_sec :: int
  tv_nsec :: int

type_synonym dev_ptr = nat
type_synonym stream_ptr = nat

text \<open>
  \<^verbatim>\<open>struct cras_rstream\<close>: \<open>shm_frames\<close> is what \<^verbatim>\<open>cras_shm_get_frames\<close> reports for
  the stream's shared memory, a C \<^verbatim>\<open>int\<close> held as its 32 bits and read with \<open>sint\<close>;
  \<open>dev_offset\<close> is what \<^verbatim>\<open>cras_rstream_dev_offset\<close> reports per device index.
\<close>

record cras_rstream =
  stream_id :: nat
  direction :: CRAS_STREAM_DIRECTION
  cb_threshold :: nat
  frame_rate :: nat
  is_draining :: bool
  shm_frames :: "32 word"
  dev_offset :: "nat \<Rightarrow> nat"

text \<open>
  \<^verbatim>\<open>struct dev_stream\<close>: the binding of one stream to one device. \<open>ds_init_cb_ts\<close> is the
  timestamp handed to \<^verbatim>\<open>dev_stream_create\<close>, \<open>ds_offset\<close> the offset that
  \<^verbatim>\<open>cras_iodev_stream_offset\<close> reports for the binding.
\<close>

record dev_stream =
  ds_stream :: stream_ptr
  ds_dev_id :: nat
  ds_init_cb_ts :: timespec
  ds_next_cb_ts :: "timespec option"
  ds_can_fetch :: bool
  ds_playback_frames :: int
  ds_poll_stream_fd :: int
  ds_offset :: nat

text \<open>
  \<^verbatim>\<open>struct cras_iodev\<close>: \<open>flush_buffer\<close> is the result of the device's
  \<^verbatim>\<open>flush_buffer\<close> callback, \<open>odev_should_wake\<close> that of
  \<^verbatim>\<open>cras_iodev_odev_should_wake\<close>.
\<close>

record cras_iodev =
  dev_direction :: CRAS_STREAM_DIRECTION
  info_idx :: nat
  streams :: "dev_stream list"
  flush_buffer :: int
  odev_should_wake :: bool

record open_dev =
  dev :: dev_ptr
  wake_ts :: timespec

record audio_thread =
  open_devs :: "CRAS_STREAM_DIRECTION \<Rightarrow> open_dev list"

text \<open>
  The state the worker acts on: the thread structure, the store of devices and streams, and
  the file's static variables \<^verbatim>\<open>longest_wake\<close> and \<^verbatim>\<open>continuous_zero_sleep_count\<close>.
  \<open>busyloop_events\<close> counts the calls of \<^verbatim>\<open>cras_audio_thread_busyloop\<close>.
\<close>

record world =
  thread :: audio_thread
  iodevs :: "dev_ptr \<Rightarrow> cras_iodev"
  rstreams :: "stream_ptr \<Rightarrow> cras_rstream"
  longest_wake :: timespec
  continuous_zero_sleep_count :: int
  busyloop_events :: nat

subsection \<open>Error codes\<close>

definition EINVAL :: int where "EINVAL = 22"
definition ENOENT :: int where "ENOENT = 2"
definition EEXIST :: int where "EEXIST = 17"
definition ENOMEM :: int where "ENOMEM = 12"
definition EPIPE :: int where "EPIPE = 32"
definition EINTR :: int where "EINTR = 4"

datatype error_kind = AlreadyExists | NotFound | InvalidArg | OutOfMemory | Pipe | Interrupted

text \<open>
  Modelled from the spec: the error kinds of the reply channel (section 7) are names for the
  negated errno values the handlers return; the table is not part of the source file.
\<close>

definition error_kind_of :: "int \<Rightarrow> error_kind option" where
  "error_kind_of rc =
     (if rc = - EEXIST then Some AlreadyExists
      else if rc = - ENOENT then Some NotFound
      else if rc = - EINVAL then Some InvalidArg
      else if rc = - ENOMEM then Some OutOfMemory
      else if rc = - EPIPE then Some Pipe
      else if rc = - EINTR then Some Interrupted
      else None)"

subsection \<open>List helpers of utlist and dev_io\<close>

text \<open>\<^verbatim>\<open>DL_SEARCH_SCALAR(head, out, field, val)\<close>: the first element whose field equals the value.\<close>

definition search_open_dev :: "open_dev list \<Rightarrow> dev_ptr \<Rightarrow> open_dev option" where
  "search_open_dev l d = find (\<lambda>od. dev od = d) l"

definition search_dev_stream :: "dev_stream list \<Rightarrow> stream_ptr \<Rightarrow> dev_stream option" where
  "search_dev_stream l s = find (\<lambda>ds. ds_stream ds = s) l"

text \<open>
  Modelled from the spec: \<^verbatim>\<open>dev_io_find_open_dev\<close> is defined in dev_io.c, outside the file;
  section 4.5 describes it as a lookup of the device in the list of its direction.
\<close>

definition dev_io_find_open_dev :: "open_dev list \<Rightarrow> dev_ptr \<Rightarrow> open_dev option" where
  "dev_io_find_open_dev l d = search_open_dev l d"

text \<open>
  Modelled from the spec: \<^verbatim>\<open>dev_io_rm_open_dev\<close> is defined in dev_io.c, outside the file;
  section 4.5 says it removes the open device from the list of its direction.
\<close>

definition dev_io_rm_open_dev :: "open_dev list \<Rightarrow> open_dev \<Rightarrow> open_dev list" where
  "dev_io_rm_open_dev l adev = remove1 adev l"

section \<open>Removing an open device\<close>

definition thread_rm_open_dev :: "dev_ptr \<Rightarrow> world \<Rightarrow> int \<times> world" where
  "thread_rm_open_dev iodev w =
     (let dir = dev_direction (iodevs w iodev) in
      case dev_io_find_open_dev (open_devs (thread w) dir) iodev of
        None \<Rightarrow> (- EINVAL, w)
      | Some adev \<Rightarrow>
          (0, w\<lparr>thread := (thread w)\<lparr>open_devs :=
                 (open_devs (thread w))(dir := dev_io_rm_open_dev (open_devs (thread w) dir) adev)\<rparr>\<rparr>))"

section \<open>Attaching a stream\<close>

text \<open>
  Modelled from the spec: \<^verbatim>\<open>timespec_after\<close> is an inline helper of cras_util.h, outside the
  file; section 6 lists it among the time helpers: the first time lies strictly after the second.
\<close>

definition timespec_after :: "timespec \<Rightarrow> timespec \<Rightarrow> bool" where
  "timespec_after a b \<longleftrightarrow>
     tv_sec a > tv_sec b \<or> (tv_sec a = tv_sec b \<and> tv_nsec a > tv_nsec b)"

text \<open>
  What the surroundings of one command supply: the reading of
  \<^verbatim>\<open>clock_gettime(CLOCK_MONOTONIC_RAW)\<close>, one value for the readings taken while the command
  runs, and the allocation inside \<^verbatim>\<open>dev_stream_create\<close>, which yields no object when it
  fails.
\<close>

record ext =
  clock_monotonic_raw :: timespec
  dev_stream_alloc :: "stream_ptr \<Rightarrow> dev_ptr \<Rightarrow> dev_stream option"

text \<open>
  Modelled from the spec: \<^verbatim>\<open>dev_stream_create\<close> is defined in dev_stream.c, outside the file;
  section 4.6 step 4: it instantiates a binding from the stream, the device index and the
  initial callback timestamp, and may fail.
\<close>

definition dev_stream_create ::
  "ext \<Rightarrow> stream_ptr \<Rightarrow> nat \<Rightarrow> dev_ptr \<Rightarrow> timespec \<Rightarrow> dev_stream option" where
  "dev_stream_create E s idx d cb_ts =
     map_option (\<lambda>ds. ds\<lparr>ds_stream := s, ds_dev_id := idx, ds_init_cb_ts := cb_ts\<rparr>)
       (dev_stream_alloc E s d)"

text \<open>
  Modelled from the spec: \<^verbatim>\<open>cras_iodev_add_stream\<close> is defined in cras_iodev.c, outside the
  file; section 4.6 step 6 binds the new binding to the device, behind the ones already there
  (the first attached stream stays first).
\<close>

definition cras_iodev_add_stream :: "dev_ptr \<Rightarrow> dev_stream \<Rightarrow> world \<Rightarrow> world" where
  "cras_iodev_add_stream d out w =
     w\<lparr>iodevs := (iodevs w)(d := (iodevs w d)\<lparr>streams := streams (iodevs w d) @ [out]\<rparr>)\<rparr>"

text \<open>
  Modelled from the spec: \<^verbatim>\<open>cras_iodev_rm_stream\<close> is defined in cras_iodev.c, outside the
  file; section 4.6 says it removes the stream's binding from the device.
\<close>

definition cras_iodev_rm_stream :: "dev_ptr \<Rightarrow> stream_ptr \<Rightarrow> world \<Rightarrow> world" where
  "cras_iodev_rm_stream d s w =
     w\<lparr>iodevs := (iodevs w)(d := (iodevs w d)\<lparr>streams :=
          filter (\<lambda>ds. ds_stream ds \<noteq> s) (streams (iodevs w d))\<rparr>)\<rparr>"

text \<open>
  Modelled from the spec: \<^verbatim>\<open>dev_stream_destroy\<close> is defined in dev_stream.c, outside the file;
  it frees a binding that is no longer on any list, which leaves the modelled state as it is.
\<close>

definition dev_stream_destroy :: "dev_stream \<Rightarrow> world \<Rightarrow> world" where
  "dev_stream_destroy out w = w"

text \<open>
  Modelled from the spec: \<^verbatim>\<open>cras_iodev_stream_offset\<close> and \<^verbatim>\<open>cras_iodev_stream_written\<close>
  are defined in cras_iodev.c, outside the file; section 4.6 step 7 reads the offset of a
  binding with the first and records an offset into the binding of a stream with the second.
\<close>

definition cras_iodev_stream_offset :: "dev_stream \<Rightarrow> nat" where
  "cras_iodev_stream_offset ds = ds_offset ds"

definition cras_iodev_stream_written :: "dev_ptr \<Rightarrow> dev_stream \<Rightarrow> nat \<Rightarrow> world \<Rightarrow> world" where
  "cras_iodev_stream_written d out n w =
     w\<lparr>iodevs := (iodevs w)(d := (iodevs w d)\<lparr>streams :=
          map (\<lambda>x. if ds_stream x = ds_stream out then x\<lparr>ds_offset := n\<rparr> else x)
            (streams (iodevs w d))\<rparr>)\<rparr>"

text \<open>
  Modelled from the spec: \<^verbatim>\<open>cras_rstream_dev_offset\<close> and
  \<^verbatim>\<open>cras_rstream_dev_offset_update\<close> are defined in cras_rstream.h, outside the file; section
  4.6 step 7 reads a stream's offset for a device index with the first and records one with
  the second.
\<close>

definition cras_rstream_dev_offset :: "cras_rstream \<Rightarrow> nat \<Rightarrow> nat" where
  "cras_rstream_dev_offset str idx = dev_offset str idx"

definition cras_rstream_dev_offset_update :: "stream_ptr \<Rightarrow> nat \<Rightarrow> nat \<Rightarrow> world \<Rightarrow> world" where
  "cras_rstream_dev_offset_update s n idx w =
     w\<lparr>rstreams := (rstreams w)(s := (rstreams w s)\<lparr>dev_offset :=
          (dev_offset (rstreams w s))(idx := n)\<rparr>)\<rparr>"

text \<open>
  The locals of \<^verbatim>\<open>append_stream\<close> that live across the iterations of its loop over the
  requested devices. Both are declared before the loop and never reset inside it.
\<close>

record append_locals =
  init_cb_ts :: timespec
  cb_ts_set :: bool

text \<open>
  Lines 289 to 296: the walk over the streams of an output device that looks for the earliest
  next callback time. \<^verbatim>\<open>dev_stream_next_cb_ts\<close> yields a null pointer or the timestamp.
\<close>

fun earliest_cb_ts :: "dev_stream list \<Rightarrow> append_locals \<Rightarrow> append_locals" where
  "earliest_cb_ts [] l = l"
| "earliest_cb_ts (out # rest) l =
     earliest_cb_ts rest
       (case ds_next_cb_ts out of
          None \<Rightarrow> l
        | Some stream_ts \<Rightarrow>
            if \<not> cb_ts_set l \<or> timespec_after (init_cb_ts l) stream_ts
            then l\<lparr>init_cb_ts := stream_ts, cb_ts_set := True\<rparr>
            else l)"

text \<open>
  Lines 329 to 343: the alignment of the offsets of an input stream that is not the first on
  its device. \<open>first\<close> is \<^verbatim>\<open>dev->streams\<close>, the head of the list.
\<close>

definition align_input_offsets ::
  "stream_ptr \<Rightarrow> dev_ptr \<Rightarrow> dev_stream \<Rightarrow> dev_stream \<Rightarrow> world \<Rightarrow> world" where
  "align_input_offsets s d first out w =
     (let thr = cb_threshold (rstreams w s);
          offset = cras_iodev_stream_offset first;
          offset = (if offset > thr then thr else offset);
          w1 = cras_iodev_stream_written d out offset w;
          offset = cras_rstream_dev_offset (rstreams w1 (ds_stream first)) (info_idx (iodevs w1 d));
          offset = (if offset > thr then thr else offset)
      in cras_rstream_dev_offset_update s offset (info_idx (iodevs w1 d)) w1)"

text \<open>
  Lines 288 to 300: the choice of the initial callback time for the new binding on device
  \<open>d\<close>. The clock is read only when \<^verbatim>\<open>cb_ts_set\<close> is still false.
\<close>

definition pick_init_cb_ts :: "ext \<Rightarrow> stream_ptr \<Rightarrow> dev_ptr \<Rightarrow> append_locals \<Rightarrow> world \<Rightarrow> append_locals" where
  "pick_init_cb_ts E s d l w =
     (let l1 = (if direction (rstreams w s) = CRAS_STREAM_OUTPUT \<and> streams (iodevs w d) \<noteq> []
                then earliest_cb_ts (streams (iodevs w d)) l else l)
      in if \<not> cb_ts_set l1 then l1\<lparr>init_cb_ts := clock_monotonic_raw E\<rparr> else l1)"

text \<open>
  Lines 321 to 343: the binding of the new object \<open>out\<close> and, for an input stream that is not
  at the head of the list afterwards, the alignment. The comparison
  \<^verbatim>\<open>dev->streams != out\<close> is made on the values: the head differs from the new binding in
  its stream whenever it is another object, because the search before found no binding of the
  stream on the device. The list is never empty after the binding.
\<close>

definition attach_dev_stream :: "stream_ptr \<Rightarrow> dev_ptr \<Rightarrow> dev_stream \<Rightarrow> world \<Rightarrow> world" where
  "attach_dev_stream s d out w =
     (let w1 = cras_iodev_add_stream d out w
      in case streams (iodevs w1 d) of
           [] \<Rightarrow> w1
         | first # _ \<Rightarrow>
             if direction (rstreams w1 s) = CRAS_STREAM_INPUT \<and> first \<noteq> out
             then align_input_offsets s d first out w1
             else w1)"

text \<open>
  One iteration of the loop of \<^verbatim>\<open>append_stream\<close>, lines 270 to 343, for the requested device
  \<open>d\<close>. \<open>Inl rc\<close> is a \<^verbatim>\<open>break\<close> with the return code set, \<open>Inr\<close> the locals and the state
  with which the loop goes on.
\<close>

definition append_stream_dev ::
  "ext \<Rightarrow> stream_ptr \<Rightarrow> dev_ptr \<Rightarrow> append_locals \<Rightarrow> world \<Rightarrow> int + append_locals \<times> world" where
  "append_stream_dev E s d l w =
     (case search_open_dev (open_devs (thread w) (direction (rstreams w s))) d of
        None \<Rightarrow> Inr (l, w)
      | Some open_dev \<Rightarrow>
         (case search_dev_stream (streams (iodevs w d)) s of
            Some out \<Rightarrow> Inr (l, w)
          | None \<Rightarrow>
             (let l2 = pick_init_cb_ts E s d l w
              in case dev_stream_create E s (info_idx (iodevs w d)) d (init_cb_ts l2) of
                   None \<Rightarrow> Inl (- EINVAL)
                 | Some out \<Rightarrow>
                     if direction (rstreams w s) = CRAS_STREAM_INPUT \<and> streams (iodevs w d) = []
                        \<and> flush_buffer (iodevs w d) < 0
                     then Inl (flush_buffer (iodevs w d))
                     else Inr (l2, attach_dev_stream s d out w))))"

text \<open>The loop over the requested devices; it returns \<^verbatim>\<open>rc\<close> and the state reached.\<close>

fun append_stream_loop ::
  "ext \<Rightarrow> stream_ptr \<Rightarrow> dev_ptr list \<Rightarrow> append_locals \<Rightarrow> world \<Rightarrow> int \<times> world" where
  "append_stream_loop E s [] l w = (0, w)"
| "append_stream_loop E s (d # ds) l w =
     (case append_stream_dev E s d l w of
        Inl rc \<Rightarrow> (rc, w)
      | Inr (l', w') \<Rightarrow> append_stream_loop E s ds l' w')"

text \<open>Lines 346 to 356: the walk over the open devices that undoes the bindings of the stream.\<close>

fun append_stream_rollback :: "stream_ptr \<Rightarrow> open_dev list \<Rightarrow> world \<Rightarrow> world" where
  "append_stream_rollback s [] w = w"
| "append_stream_rollback s (od # rest) w =
     append_stream_rollback s rest
       (case search_dev_stream (streams (iodevs w (dev od))) s of
          None \<Rightarrow> w
        | Some out \<Rightarrow> dev_stream_destroy out (cras_iodev_rm_stream (dev od) s w))"

text \<open>
  The locals on entry. \<^verbatim>\<open>init_cb_ts\<close> is uninitialised there; it is read only once
  \<^verbatim>\<open>cb_ts_set\<close> holds or after the clock has been stored into it, so the value it starts
  with never shows.
\<close>

definition append_init :: append_locals where
  "append_init = \<lparr>init_cb_ts = \<lparr>tv_sec = 0, tv_nsec = 0\<rparr>, cb_ts_set = False\<rparr>"

definition append_stream :: "ext \<Rightarrow> stream_ptr \<Rightarrow> dev_ptr list \<Rightarrow> world \<Rightarrow> int \<times> world" where
  "append_stream E s devs w =
     (case append_stream_loop E s devs append_init w of
        (rc, w1) \<Rightarrow>
          if rc \<noteq> 0
          then (rc, append_stream_rollback s (open_devs (thread w1) (direction (rstreams w1 s))) w1)
          else (rc, w1))"

text \<open>The handler of the add-stream message; the log entry it writes is not part of the state.\<close>

definition thread_add_stream :: "ext \<Rightarrow> stream_ptr \<Rightarrow> dev_ptr list \<Rightarrow> world \<Rightarrow> int \<times> world" where
  "thread_add_stream E s devs w =
     (case append_stream E s devs w of (rc, w1) \<Rightarrow> if rc < 0 then (rc, w1) else (0, w1))"

text \<open>
  The two \<^verbatim>\<open>break\<close>s of the loop, lines 304 to 307 and 315 to 318, read on the state in
  which the iteration for device \<open>d\<close> starts: the device is open for the direction of the
  stream, it holds no binding of the stream yet, and the creation of the binding fails or,
  for an input stream on a device without streams, the flush of the device returns a
  negative value.
\<close>

definition attempt_breaks :: "ext \<Rightarrow> stream_ptr \<Rightarrow> world \<Rightarrow> dev_ptr \<Rightarrow> bool" where
  "attempt_breaks E s w d \<longleftrightarrow>
     d \<in> dev ` set (open_devs (thread w) (direction (rstreams w s)))
     \<and> s \<notin> ds_stream ` set (streams (iodevs w d))
     \<and> (dev_stream_alloc E s d = None
        \<or> direction (rstreams w s) = CRAS_STREAM_INPUT \<and> streams (iodevs w d) = []
          \<and> flush_buffer (iodevs w d) < 0)"

section \<open>Draining a stream\<close>

text \<open>Lines 429 to 442: non-zero when the stream has a binding on an open device of its direction.\<close>

definition thread_find_stream :: "stream_ptr \<Rightarrow> world \<Rightarrow> int" where
  "thread_find_stream s w =
     (if list_ex (\<lambda>od. list_ex (\<lambda>ds. ds_stream ds = s) (streams (iodevs w (dev od))))
           (open_devs (thread w) (direction (rstreams w s)))
      then 1 else 0)"

text \<open>
  Modelled from the spec: \<^verbatim>\<open>cras_frames_to_ms\<close> is an inline helper of cras_util.h, outside
  the file; section 4.5 uses it as the duration of a number of frames at a frame rate in
  milliseconds, rounded down (example E4: 4800 frames at 48000 Hz are 100 ms). It is a C
  function on \<^verbatim>\<open>unsigned int\<close>: the product of 1000 and the frames is taken modulo \<open>2 ^ 32\<close>
  before the division, and the division by the rate 0 has no result (\<open>None\<close>).
\<close>

definition cras_frames_to_ms :: "32 word \<Rightarrow> 32 word \<Rightarrow> 32 word option" where
  "cras_frames_to_ms frames rate = (if rate = 0 then None else Some (1000 * frames div rate))"

text \<open>
  Modelled from the spec: \<^verbatim>\<open>cras_rstream_set_is_draining\<close> is defined in cras_rstream.h,
  outside the file; section 4.5 says it marks the stream as draining.
\<close>

definition cras_rstream_set_is_draining :: "stream_ptr \<Rightarrow> bool \<Rightarrow> world \<Rightarrow> world" where
  "cras_rstream_set_is_draining s b w =
     w\<lparr>rstreams := (rstreams w)(s := (rstreams w s)\<lparr>is_draining := b\<rparr>)\<rparr>"

text \<open>
  Lines 465 to 483. The frame count, a positive \<^verbatim>\<open>int\<close>, and the frame rate, a
  \<^verbatim>\<open>size_t\<close>, are converted to the \<^verbatim>\<open>unsigned int\<close> parameters of the helper; the sum
  with 1 is an \<^verbatim>\<open>unsigned int\<close> and is returned as an \<^verbatim>\<open>int\<close>, which \<open>sint\<close> reads.
  \<open>None\<close> is the division by zero inside the helper, after which nothing is returned.
\<close>

definition thread_drain_stream_ms_remaining :: "stream_ptr \<Rightarrow> world \<Rightarrow> (int \<times> world) option" where
  "thread_drain_stream_ms_remaining s w =
     (if direction (rstreams w s) \<noteq> CRAS_STREAM_OUTPUT then Some (0, w)
      else
        (let fr_in_buff = sint (shm_frames (rstreams w s))
         in if fr_in_buff \<le> 0 then Some (0, w)
            else
              (let w1 = cras_rstream_set_is_draining s True w
               in case cras_frames_to_ms (word_of_int fr_in_buff)
                         (word_of_nat (frame_rate (rstreams w1 s))) of
                    None \<Rightarrow> None
                  | Some ms \<Rightarrow> Some (sint (1 + ms), w1))))"

text \<open>
  Modelled from the spec: \<^verbatim>\<open>dev_io_remove_stream\<close> is defined in dev_io.c, outside the file;
  sections 4.5 and 4.6 say it detaches the stream from the given device, or from every device
  of the list when no device is given.
\<close>

definition dev_io_remove_stream ::
  "open_dev list \<Rightarrow> stream_ptr \<Rightarrow> dev_ptr option \<Rightarrow> world \<Rightarrow> world" where
  "dev_io_remove_stream dev_list s dopt w =
     (case dopt of
        None \<Rightarrow> fold (\<lambda>od. cras_iodev_rm_stream (dev od) s) dev_list w
      | Some d \<Rightarrow> cras_iodev_rm_stream d s w)"

text \<open>Lines 488 to 502; \<open>None\<close> when the computation of the remaining time has no result.\<close>

definition thread_drain_stream :: "stream_ptr \<Rightarrow> world \<Rightarrow> (int \<times> world) option" where
  "thread_drain_stream s w =
     (if thread_find_stream s w = 0 then Some (0, w)
      else
        (case thread_drain_stream_ms_remaining s w of
           None \<Rightarrow> None
         | Some (ms_left, w1) \<Rightarrow>
             if ms_left = 0
             then Some (ms_left,
                    dev_io_remove_stream (open_devs (thread w1) (direction (rstreams w1 s))) s None w1)
             else Some (ms_left, w1)))"

section \<open>Busy-loop detection\<close>

definition MAX_CONTINUOUS_ZERO_SLEEP_COUNT :: int where
  "MAX_CONTINUOUS_ZERO_SLEEP_COUNT = 2"

definition INT_MAX :: int where
  "INT_MAX = 2147483647"

text \<open>
  Modelled from the spec: \<^verbatim>\<open>cras_audio_thread_busyloop\<close> is defined in
  cras_audio_thread_monitor.c, outside the file; section 4.3 says it raises one BusyLoop
  telemetry signal.
\<close>

definition cras_audio_thread_busyloop :: "world \<Rightarrow> world" where
  "cras_audio_thread_busyloop w = w\<lparr>busyloop_events := busyloop_events w + 1\<rparr>"

text \<open>
  Lines 866 to 880. The counter is a C \<^verbatim>\<open>int\<close>: incrementing it at \<open>INT_MAX\<close> is a signed
  overflow, which C leaves undefined; the model yields \<open>None\<close> there.
\<close>

definition check_busyloop :: "timespec \<Rightarrow> world \<Rightarrow> world option" where
  "check_busyloop wait_ts w =
     (if tv_sec wait_ts = 0 \<and> tv_nsec wait_ts = 0
      then
        (if continuous_zero_sleep_count w = INT_MAX then None
         else
           (let w1 = w\<lparr>continuous_zero_sleep_count := continuous_zero_sleep_count w + 1\<rparr>
            in if continuous_zero_sleep_count w1 = MAX_CONTINUOUS_ZERO_SLEEP_COUNT
               then Some (cras_audio_thread_busyloop w1)
               else Some w1))
      else Some (w\<lparr>continuous_zero_sleep_count := 0\<rparr>))"

text \<open>
  Lines 968 and 969 of the main loop: the checker runs only in an iteration that has a wait
  time, \<^verbatim>\<open>wait_ts\<close> being null when nothing needs a wake-up.
\<close>

definition loop_check_busyloop :: "timespec option \<Rightarrow> world \<Rightarrow> world option" where
  "loop_check_busyloop wait_ts w =
     (case wait_ts of None \<Rightarrow> Some w | Some ts \<Rightarrow> check_busyloop ts w)"

text \<open>The checks of a sequence of loop iterations, one wait time each, in order.\<close>

fun run_check_busyloop :: "timespec option list \<Rightarrow> world \<Rightarrow> world option" where
  "run_check_busyloop [] w = Some w"
| "run_check_busyloop (t # ts) w =
     (case loop_check_busyloop t w of None \<Rightarrow> None | Some w' \<Rightarrow> run_check_busyloop ts w')"

section \<open>The next sleep interval\<close>

text \<open>
  Modelled from the spec: \<^verbatim>\<open>add_timespecs\<close> and \<^verbatim>\<open>subtract_timespecs\<close> are inline helpers
  of cras_util.h, outside the file; section 6 lists them among the time helpers: the sum of
  two times with the nanoseconds carried into the seconds, and the difference of a later and
  an earlier time with the nanoseconds borrowed from the seconds.
\<close>

definition add_timespecs :: "timespec \<Rightarrow> timespec \<Rightarrow> timespec" where
  "add_timespecs a b =
     \<lparr>tv_sec = tv_sec a + tv_sec b + (tv_nsec a + tv_nsec b) div 1000000000,
      tv_nsec = (tv_nsec a + tv_nsec b) mod 1000000000\<rparr>"

definition subtract_timespecs :: "timespec \<Rightarrow> timespec \<Rightarrow> timespec" where
  "subtract_timespecs end_ts beg =
     (if tv_nsec end_ts - tv_nsec beg < 0
      then \<lparr>tv_sec = tv_sec end_ts - tv_sec beg - 1,
            tv_nsec = tv_nsec end_ts - tv_nsec beg + 1000000000\<rparr>
      else \<lparr>tv_sec = tv_sec end_ts - tv_sec beg, tv_nsec = tv_nsec end_ts - tv_nsec beg\<rparr>)"

text \<open>
  Lines 766 to 794: the loop over the streams of one device, on the pair of the count
  \<^verbatim>\<open>ret\<close> and \<^verbatim>\<open>*min_ts\<close>.
\<close>

fun stream_wake_loop :: "world \<Rightarrow> dev_stream list \<Rightarrow> int \<times> timespec \<Rightarrow> int \<times> timespec" where
  "stream_wake_loop w [] acc = acc"
| "stream_wake_loop w (dev_stream # rest) (ret, min_ts) =
     (if is_draining (rstreams w (ds_stream dev_stream)) \<and> ds_playback_frames dev_stream \<le> 0
      then stream_wake_loop w rest (ret, min_ts)
      else if \<not> ds_can_fetch dev_stream
      then stream_wake_loop w rest (ret, min_ts)
      else
        (case ds_next_cb_ts dev_stream of
           None \<Rightarrow> stream_wake_loop w rest (ret, min_ts)
         | Some next_cb_ts \<Rightarrow>
             stream_wake_loop w rest
               (ret + 1, if timespec_after min_ts next_cb_ts then next_cb_ts else min_ts)))"

definition get_next_stream_wake_from_list ::
  "world \<Rightarrow> dev_stream list \<Rightarrow> timespec \<Rightarrow> int \<times> timespec" where
  "get_next_stream_wake_from_list w strs min_ts = stream_wake_loop w strs (0, min_ts)"

text \<open>Lines 803 to 806: the first loop of \<^verbatim>\<open>get_next_output_wake\<close>, over the streams of every device.\<close>

fun output_streams_loop :: "world \<Rightarrow> open_dev list \<Rightarrow> int \<times> timespec \<Rightarrow> int \<times> timespec" where
  "output_streams_loop w [] acc = acc"
| "output_streams_loop w (adev # rest) (ret, min_ts) =
     (case get_next_stream_wake_from_list w (streams (iodevs w (dev adev))) min_ts of
        (n, min_ts') \<Rightarrow> output_streams_loop w rest (ret + n, min_ts'))"

text \<open>Lines 808 to 815: its second loop, over the devices that ask for a wake-up themselves.\<close>

fun output_devs_loop :: "world \<Rightarrow> open_dev list \<Rightarrow> int \<times> timespec \<Rightarrow> int \<times> timespec" where
  "output_devs_loop w [] acc = acc"
| "output_devs_loop w (adev # rest) (ret, min_ts) =
     (if \<not> odev_should_wake (iodevs w (dev adev))
      then output_devs_loop w rest (ret, min_ts)
      else output_devs_loop w rest
             (ret + 1, if timespec_after min_ts (wake_ts adev) then wake_ts adev else min_ts))"

definition get_next_output_wake :: "world \<Rightarrow> open_dev list \<Rightarrow> timespec \<Rightarrow> int \<times> timespec" where
  "get_next_output_wake w odevs min_ts =
     output_devs_loop w odevs (output_streams_loop w odevs (0, min_ts))"

text \<open>
  The deadline \<^verbatim>\<open>min_ts\<close> that \<^verbatim>\<open>fill_next_sleep_interval\<close> has reached at line 839, with the
  count of wakers. \<^verbatim>\<open>dev_io_next_input_wake\<close> is defined in dev_io.c, outside the file; it
  enters as the parameter \<open>input_wake\<close>, from the list of input devices and the deadline so
  far to its count and the new deadline.
\<close>

definition next_wake_deadline ::
  "(open_dev list \<Rightarrow> timespec \<Rightarrow> int \<times> timespec) \<Rightarrow> timespec \<Rightarrow> world \<Rightarrow> int \<times> timespec" where
  "next_wake_deadline input_wake now w =
     (let min_ts = add_timespecs \<lparr>tv_sec = 20, tv_nsec = 0\<rparr> now
      in case get_next_output_wake w (open_devs (thread w) CRAS_STREAM_OUTPUT) min_ts of
           (ret, min_ts1) \<Rightarrow>
             (case input_wake (open_devs (thread w) CRAS_STREAM_INPUT) min_ts1 of
                (n, min_ts2) \<Rightarrow> (ret + n, min_ts2)))"

text \<open>Lines 821 to 843; \<open>now\<close> is the reading of the clock at line 833. The result is the count and \<^verbatim>\<open>*ts\<close>.\<close>

definition fill_next_sleep_interval ::
  "(open_dev list \<Rightarrow> timespec \<Rightarrow> int \<times> timespec) \<Rightarrow> timespec \<Rightarrow> world \<Rightarrow> int \<times> timespec" where
  "fill_next_sleep_interval input_wake now w =
     (case next_wake_deadline input_wake now w of
        (ret, min_ts) \<Rightarrow>
          (ret, if timespec_after min_ts now then subtract_timespecs min_ts now
                else \<lparr>tv_sec = 0, tv_nsec = 0\<rparr>))"

text \<open>A time as \<^verbatim>\<open>clock_gettime\<close> and the time helpers produce it, and its length in nanoseconds.\<close>

definition timespec_ok :: "timespec \<Rightarrow> bool" where
  "timespec_ok t \<longleftrightarrow> 0 \<le> tv_nsec t \<and> tv_nsec t < 1000000000"

definition timespec_ns :: "timespec \<Rightarrow> int" where
  "timespec_ns t = tv_sec t * 1000000000 + tv_nsec t"

text \<open>The wake times of the open output devices and the callback times of their streams are such times.\<close>

definition output_times_ok :: "world \<Rightarrow> bool" where
  "output_times_ok w =
     list_all (\<lambda>od. timespec_ok (wake_ts od)
                 \<and> list_all (\<lambda>ds. case ds_next_cb_ts ds of None \<Rightarrow> True | Some t \<Rightarrow> timespec_ok t)
                     (streams (iodevs w (dev od))))
       (open_devs (thread w) CRAS_STREAM_OUTPUT)"

section \<open>Dumping the thread state\<close>

text \<open>
  \<^verbatim>\<open>struct audio_debug_info\<close>, with the device and the stream entries written so far, and the
  locals \<^verbatim>\<open>num_devs\<close> and \<^verbatim>\<open>num_streams\<close> of the dump. An entry is written at the index of
  the counter, which is the number of entries written before it.
\<close>

record dump =
  info_devs :: "nat list"
  info_streams :: "(nat \<times> nat) list"
  num_devs :: nat
  num_streams :: nat

text \<open>Lines 553 to 576: the device entry, reduced to the device's index.\<close>

definition append_dev_dump_info :: "open_dev \<Rightarrow> dump \<times> world \<Rightarrow> dump \<times> world" where
  "append_dev_dump_info adev iw =
     (case iw of (di, w) \<Rightarrow> (di\<lparr>info_devs := info_devs di @ [info_idx (iodevs w (dev adev))]\<rparr>, w))"

text \<open>
  Lines 579 to 605: the stream entry, reduced to the stream's id and the device index, and
  the reset of \<^verbatim>\<open>longest_wake\<close> at the end of the function.
\<close>

definition append_stream_dump_info :: "dev_stream \<Rightarrow> nat \<Rightarrow> dump \<times> world \<Rightarrow> dump \<times> world" where
  "append_stream_dump_info cur dev_idx iw =
     (case iw of (di, w) \<Rightarrow>
        (di\<lparr>info_streams := info_streams di @ [(stream_id (rstreams w (ds_stream cur)), dev_idx)]\<rparr>,
         w\<lparr>longest_wake := \<lparr>tv_sec = 0, tv_nsec = 0\<rparr>\<rparr>))"

text \<open>
  The inner loops at lines 685 to 691 and 697 to 703, over the streams of one device;
  \<open>max_streams\<close> is \<^verbatim>\<open>MAX_DEBUG_STREAMS\<close>, a constant of cras_types.h.
\<close>

fun dump_dev_streams :: "nat \<Rightarrow> nat \<Rightarrow> dev_stream list \<Rightarrow> dump \<times> world \<Rightarrow> dump \<times> world" where
  "dump_dev_streams max_streams dev_idx [] iw = iw"
| "dump_dev_streams max_streams dev_idx (cur # rest) (di, w) =
     (if num_streams di = max_streams then (di, w)
      else dump_dev_streams max_streams dev_idx rest
             (append_stream_dump_info cur dev_idx (di\<lparr>num_streams := num_streams di + 1\<rparr>, w)))"

text \<open>
  Lines 681 to 692: the loop over the output devices; \<open>max_devs\<close> is \<^verbatim>\<open>MAX_DEBUG_DEVS\<close>, a
  constant of cras_types.h. The loop ends right after the entry of the device that fills the
  array, before the streams of that device.
\<close>

fun dump_output_devs :: "nat \<Rightarrow> nat \<Rightarrow> open_dev list \<Rightarrow> dump \<times> world \<Rightarrow> dump \<times> world" where
  "dump_output_devs max_devs max_streams [] iw = iw"
| "dump_output_devs max_devs max_streams (adev # rest) iw =
     (case append_dev_dump_info adev iw of
        (di, w) \<Rightarrow>
          (let di1 = di\<lparr>num_devs := num_devs di + 1\<rparr>
           in if num_devs di1 = max_devs then (di1, w)
              else dump_output_devs max_devs max_streams rest
                     (dump_dev_streams max_streams (info_idx (iodevs w (dev adev)))
                        (streams (iodevs w (dev adev))) (di1, w))))"

text \<open>Lines 693 to 705: the loop over the input devices.\<close>

fun dump_input_devs :: "nat \<Rightarrow> nat \<Rightarrow> open_dev list \<Rightarrow> dump \<times> world \<Rightarrow> dump \<times> world" where
  "dump_input_devs max_devs max_streams [] iw = iw"
| "dump_input_devs max_devs max_streams (adev # rest) (di, w) =
     (if num_devs di = max_devs then (di, w)
      else
        (case dump_dev_streams max_streams (info_idx (iodevs w (dev adev)))
                (streams (iodevs w (dev adev))) (append_dev_dump_info adev (di, w)) of
           (di1, w1) \<Rightarrow>
             dump_input_devs max_devs max_streams rest (di1\<lparr>num_devs := num_devs di1 + 1\<rparr>, w1)))"

text \<open>
  Lines 668 to 712: the case of the dump message in \<^verbatim>\<open>handle_playback_thread_message\<close>. It
  yields the reply, the filled structure and the state.
\<close>

definition dump_thread_info :: "nat \<Rightarrow> nat \<Rightarrow> world \<Rightarrow> int \<times> dump \<times> world" where
  "dump_thread_info max_devs max_streams w =
     (case dump_input_devs max_devs max_streams (open_devs (thread w) CRAS_STREAM_INPUT)
             (dump_output_devs max_devs max_streams (open_devs (thread w) CRAS_STREAM_OUTPUT)
                (\<lparr>info_devs = [], info_streams = [], num_devs = 0, num_streams = 0\<rparr>, w)) of
        (di, w1) \<Rightarrow> (0, di, w1))"

text \<open>
  The relation between \<^verbatim>\<open>longest_wake\<close> and the stream entries written so far that every
  step of the dump keeps: the value \<open>L\<close> from before the dump as long as no stream entry has
  been written, zero afterwards.
\<close>

definition wake_tracked :: "timespec \<Rightarrow> dump \<times> world \<Rightarrow> bool" where
  "wake_tracked L iw \<longleftrightarrow>
     longest_wake (snd iw) = (if info_streams (fst iw) = [] then L else \<lparr>tv_sec = 0, tv_nsec = 0\<rparr>)"

subsection \<open>Example states\<close>

definition ts0 :: timespec where
  "ts0 = \<lparr>tv_sec = 0, tv_nsec = 0\<rparr>"

definition empty_dev :: "CRAS_STREAM_DIRECTION \<Rightarrow> nat \<Rightarrow> cras_iodev" where
  "empty_dev dir i =
     \<lparr>dev_direction = dir, info_idx = i, streams = [], flush_buffer = 0, odev_should_wake = False\<rparr>"

definition plain_stream :: "CRAS_STREAM_DIRECTION \<Rightarrow> nat \<Rightarrow> cras_rstream" where
  "plain_stream dir i =
     \<lparr>stream_id = i, direction = dir, cb_threshold = 512, frame_rate = 48000,
      is_draining = False, shm_frames = 0, dev_offset = (\<lambda>_. 0)\<rparr>"

definition idle_world :: world where
  "idle_world =
     \<lparr>thread = \<lparr>open_devs = (\<lambda>_. [])\<rparr>,
      iodevs = (\<lambda>i. empty_dev CRAS_STREAM_OUTPUT i),
      rstreams = (\<lambda>i. plain_stream CRAS_STREAM_OUTPUT i),
      longest_wake = ts0, continuous_zero_sleep_count = 0, busyloop_events = 0\<rparr>"

definition blank_dev_stream :: dev_stream where
  "blank_dev_stream =
     \<lparr>ds_stream = 0, ds_dev_id = 0, ds_init_cb_ts = ts0, ds_next_cb_ts = None,
      ds_can_fetch = True, ds_playback_frames = 0, ds_poll_stream_fd = - 1, ds_offset = 0\<rparr>"

definition plain_ext :: ext where
  "plain_ext = \<lparr>clock_monotonic_raw = \<lparr>tv_sec = 100, tv_nsec = 0\<rparr>,
                dev_stream_alloc = (\<lambda>s d. Some blank_dev_stream)\<rparr>"

definition two_inputs_world :: world where
  "two_inputs_world =
     \<lparr>thread = \<lparr>open_devs = (\<lambda>dir. if dir = CRAS_STREAM_INPUT
                   then [\<lparr>dev = 2, wake_ts = ts0\<rparr>, \<lparr>dev = 3, wake_ts = ts0\<rparr>] else [])\<rparr>,
      iodevs = (\<lambda>i. if i = 3 then (empty_dev CRAS_STREAM_INPUT 3)\<lparr>flush_buffer := - 5\<rparr>
                     else empty_dev CRAS_STREAM_INPUT i),
      rstreams = (\<lambda>i. plain_stream CRAS_STREAM_INPUT i),
      longest_wake = ts0, continuous_zero_sleep_count = 0, busyloop_events = 0\<rparr>"

definition one_output_world :: world where
  "one_output_world =
     \<lparr>thread = \<lparr>open_devs = (\<lambda>dir. if dir = CRAS_STREAM_OUTPUT
                   then [\<lparr>dev = 2, wake_ts = ts0\<rparr>] else [])\<rparr>,
      iodevs = (\<lambda>i. empty_dev CRAS_STREAM_OUTPUT i),
      rstreams = (\<lambda>i. plain_stream CRAS_STREAM_OUTPUT i),
      longest_wake = ts0, continuous_zero_sleep_count = 0, busyloop_events = 0\<rparr>"

definition bound_stream :: "stream_ptr \<Rightarrow> timespec option \<Rightarrow> nat \<Rightarrow> dev_stream" where
  "bound_stream s ts off = blank_dev_stream\<lparr>ds_stream := s, ds_next_cb_ts := ts, ds_offset := off\<rparr>"

definition shared_input_world :: world where
  "shared_input_world =
     \<lparr>thread = \<lparr>open_devs = (\<lambda>dir. if dir = CRAS_STREAM_INPUT
                   then [\<lparr>dev = 2, wake_ts = ts0\<rparr>] else [])\<rparr>,
      iodevs = (\<lambda>i. if i = 2 then (empty_dev CRAS_STREAM_INPUT 2)\<lparr>streams := [bound_stream 5 None 800]\<rparr>
                     else empty_dev CRAS_STREAM_INPUT i),
      rstreams = (\<lambda>i. if i = 5 then (plain_stream CRAS_STREAM_INPUT 5)\<lparr>dev_offset := (\<lambda>_. 800)\<rparr>
                       else plain_stream CRAS_STREAM_INPUT i),
      longest_wake = ts0, continuous_zero_sleep_count = 0, busyloop_events = 0\<rparr>"

definition two_outputs_world :: world where
  "two_outputs_world =
     \<lparr>thread = \<lparr>open_devs = (\<lambda>dir. if dir = CRAS_STREAM_OUTPUT
                   then [\<lparr>dev = 2, wake_ts = ts0\<rparr>, \<lparr>dev = 3, wake_ts = ts0\<rparr>] else [])\<rparr>,
      iodevs = (\<lambda>i. if i = 2
                     then (empty_dev CRAS_STREAM_OUTPUT 2)\<lparr>streams :=
                            [bound_stream 10 (Some \<lparr>tv_sec = 5, tv_nsec = 0\<rparr>) 0]\<rparr>
                     else if i = 3
                     then (empty_dev CRAS_STREAM_OUTPUT 3)\<lparr>streams :=
                            [bound_stream 11 (Some \<lparr>tv_sec = 10, tv_nsec = 0\<rparr>) 0]\<rparr>
                     else empty_dev CRAS_STREAM_OUTPUT i),
      rstreams = (\<lambda>i. plain_stream CRAS_STREAM_OUTPUT i),
      longest_wake = ts0, continuous_zero_sleep_count = 0, busyloop_events = 0\<rparr>"

definition draining_world :: "32 word \<Rightarrow> world" where
  "draining_world n =
     \<lparr>thread = \<lparr>open_devs = (\<lambda>dir. if dir = CRAS_STREAM_OUTPUT
                   then [\<lparr>dev = 2, wake_ts = ts0\<rparr>] else [])\<rparr>,
      iodevs = (\<lambda>i. if i = 2 then (empty_dev CRAS_STREAM_OUTPUT 2)\<lparr>streams := [bound_stream 7 None 0]\<rparr>
                     else empty_dev CRAS_STREAM_OUTPUT i),
      rstreams = (\<lambda>i. (plain_stream CRAS_STREAM_OUTPUT i)\<lparr>shm_frames := n\<rparr>),
      longest_wake = ts0, continuous_zero_sleep_count = 0, busyloop_events = 0\<rparr>"

definition capture_world :: world where
  "capture_world =
     \<lparr>thread = \<lparr>open_devs = (\<lambda>dir. if dir = CRAS_STREAM_INPUT
                   then [\<lparr>dev = 2, wake_ts = ts0\<rparr>, \<lparr>dev = 3, wake_ts = ts0\<rparr>] else [])\<rparr>,
      iodevs = (\<lambda>i. (empty_dev CRAS_STREAM_INPUT i)\<lparr>streams := [bound_stream 5 None 0, bound_stream 7 None 0]\<rparr>),
      rstreams = (\<lambda>i. plain_stream CRAS_STREAM_INPUT i),
      longest_wake = ts0, continuous_zero_sleep_count = 0, busyloop_events = 0\<rparr>"

definition playing_world :: world where
  "playing_world =
     \<lparr>thread = \<lparr>open_devs = (\<lambda>dir. if dir = CRAS_STREAM_OUTPUT
                   then [\<lparr>dev = 2, wake_ts = \<lparr>tv_sec = 130, tv_nsec = 0\<rparr>\<rparr>] else [])\<rparr>,
      iodevs = (\<lambda>i. if i = 2
                     then (empty_dev CRAS_STREAM_OUTPUT 2)\<lparr>streams :=
                            [bound_stream 7 (Some \<lparr>tv_sec = 100, tv_nsec = 5000000\<rparr>) 0]\<rparr>
                     else empty_dev CRAS_STREAM_OUTPUT i),
      rstreams = (\<lambda>i. plain_stream CRAS_STREAM_OUTPUT i),
      longest_wake = ts0, continuous_zero_sleep_count = 0, busyloop_events = 0\<rparr>"

definition failing_ext :: ext where
  "failing_ext = \<lparr>clock_monotonic_raw = \<lparr>tv_sec = 100, tv_nsec = 0\<rparr>,
                  dev_stream_alloc = (\<lambda>s d. if d = 3 then None else Some blank_dev_stream)\<rparr>"

section \<open>Properties\<close>

subsection \<open>Facts about the attach loop and its rollback\<close>

lemma rollback_thread [simp]: "thread (append_stream_rollback s ods w) = thread w"
  by (induction ods arbitrary: w)
     (auto simp: cras_iodev_rm_stream_def dev_stream_destroy_def split: option.splits)

lemma rollback_rstreams [simp]: "rstreams (append_stream_rollback s ods w) = rstreams w"
  by (induction ods arbitrary: w)
     (auto simp: cras_iodev_rm_stream_def dev_stream_destroy_def split: option.splits)

lemma search_dev_stream_None: "search_dev_stream l s = None \<longleftrightarrow> s \<notin> ds_stream ` set l"
  by (auto simp: search_dev_stream_def find_None_iff)

lemma search_dev_stream_Some_iff:
  "(\<exists>out. search_dev_stream l s = Some out) \<longleftrightarrow> s \<in> ds_stream ` set l"
  using search_dev_stream_None [of l s] by (cases "search_dev_stream l s") auto

lemma rollback_streams:
  "ds_stream ` set (streams (iodevs (append_stream_rollback s ods w) d))
   = ds_stream ` set (streams (iodevs w d)) - (if d \<in> dev ` set ods then {s} else {})"
proof (induction ods arbitrary: w)
  case Nil
  then show ?case by simp
next
  case (Cons od rest)
  show ?case
    apply (simp add: Cons.IH)
    apply (auto simp: cras_iodev_rm_stream_def dev_stream_destroy_def search_dev_stream_None split: option.splits)
    done
qed

lemma align_thread [simp]: "thread (align_input_offsets s d first out w) = thread w"
  by (simp add: align_input_offsets_def Let_def cras_iodev_stream_written_def
      cras_rstream_dev_offset_update_def)

lemma align_direction [simp]:
  "direction (rstreams (align_input_offsets s d first out w) s') = direction (rstreams w s')"
  by (simp add: align_input_offsets_def Let_def cras_iodev_stream_written_def
      cras_rstream_dev_offset_update_def)

lemma align_streams:
  "streams (iodevs (align_input_offsets s d first out w) d') =
     (if d' = d
      then map (\<lambda>x. if ds_stream x = ds_stream out
                    then x\<lparr>ds_offset := min (ds_offset first) (cb_threshold (rstreams w s))\<rparr> else x)
             (streams (iodevs w d))
      else streams (iodevs w d'))"
  by (simp add: align_input_offsets_def Let_def cras_iodev_stream_written_def
      cras_rstream_dev_offset_update_def cras_iodev_stream_offset_def min_def)

lemma attach_thread [simp]: "thread (attach_dev_stream s d out w) = thread w"
  by (simp add: attach_dev_stream_def Let_def cras_iodev_add_stream_def split: list.splits)

lemma attach_direction [simp]:
  "direction (rstreams (attach_dev_stream s d out w) s') = direction (rstreams w s')"
  by (simp add: attach_dev_stream_def Let_def cras_iodev_add_stream_def split: list.splits)

lemma attach_stream_ids:
  "map ds_stream (streams (iodevs (attach_dev_stream s d out w) d))
     = map ds_stream (streams (iodevs w d)) @ [ds_stream out]"
proof -
  have m: "map ds_stream (map (\<lambda>x. if ds_stream x = k then x\<lparr>ds_offset := n\<rparr> else x) l) = map ds_stream l"
    for k n and l :: "dev_stream list"
    by (induction l) auto
  show ?thesis
    by (cases "streams (iodevs w d)")
       (simp_all add: attach_dev_stream_def Let_def cras_iodev_add_stream_def align_streams m)
qed

lemma append_stream_dev_break:
  "append_stream_dev E s d l w = Inl rc \<longleftrightarrow>
     search_open_dev (open_devs (thread w) (direction (rstreams w s))) d \<noteq> None
     \<and> search_dev_stream (streams (iodevs w d)) s = None
     \<and> (dev_stream_alloc E s d = None \<and> rc = - EINVAL
        \<or> dev_stream_alloc E s d \<noteq> None \<and> direction (rstreams w s) = CRAS_STREAM_INPUT
          \<and> streams (iodevs w d) = [] \<and> flush_buffer (iodevs w d) < 0
          \<and> rc = flush_buffer (iodevs w d))"
  by (auto simp: append_stream_dev_def Let_def dev_stream_create_def split: option.splits)

lemma append_stream_dev_Inl:
  "append_stream_dev E s d l w = Inl rc \<Longrightarrow> rc < 0"
  by (auto simp: append_stream_dev_def EINVAL_def Let_def split: option.splits if_splits)

lemma append_stream_loop_rc: "append_stream_loop E s devs l w = (rc, w') \<Longrightarrow> rc \<le> 0"
  by (induction devs arbitrary: l w) (auto split: sum.splits dest: append_stream_dev_Inl)

lemma append_stream_dev_thread:
  "append_stream_dev E s d l w = Inr (l', w') \<Longrightarrow> thread w' = thread w"
  by (auto simp: append_stream_dev_def Let_def split: option.splits if_splits)

lemma append_stream_dev_direction:
  "append_stream_dev E s d l w = Inr (l', w') \<Longrightarrow> direction (rstreams w' s') = direction (rstreams w s')"
  by (auto simp: append_stream_dev_def Let_def split: option.splits if_splits)

lemma append_stream_loop_thread:
  "append_stream_loop E s devs l w = (rc, w') \<Longrightarrow> thread w' = thread w"
  by (induction devs arbitrary: l w) (auto split: sum.splits dest: append_stream_dev_thread)

lemma append_stream_loop_direction:
  "append_stream_loop E s devs l w = (rc, w') \<Longrightarrow> direction (rstreams w' s') = direction (rstreams w s')"
  by (induction devs arbitrary: l w) (auto split: sum.splits dest: append_stream_dev_direction)

lemma append_stream_single:
  "append_stream_loop E s [d] l w =
     (case append_stream_dev E s d l w of Inl rc \<Rightarrow> (rc, w) | Inr (l', w') \<Rightarrow> (0, w'))"
  by (simp split: sum.splits)

lemma thread_add_stream_ok:
  "thread_add_stream E s devs w = (0, w1) \<Longrightarrow> append_stream_loop E s devs append_init w = (0, w1)"
  by (auto simp: thread_add_stream_def append_stream_def
      split: prod.splits if_splits dest: append_stream_loop_rc)

lemma thread_add_stream_ok_iff:
  "append_stream_loop E s devs append_init w = (0, w1) \<Longrightarrow> thread_add_stream E s devs w = (0, w1)"
  by (simp add: thread_add_stream_def append_stream_def)

lemma append_stream_dev_binds:
  assumes "search_open_dev (open_devs (thread w) (direction (rstreams w s))) d = Some od"
      and "search_dev_stream (streams (iodevs w d)) s = None"
      and "append_stream_dev E s d l w = Inr (l', w')"
  shows "map ds_stream (streams (iodevs w' d)) = map ds_stream (streams (iodevs w d)) @ [s]"
  using assms
  by (auto simp: append_stream_dev_def Let_def attach_stream_ids dev_stream_create_def
      split: option.splits if_splits)

lemma count_stream_map:
  "length (filter (\<lambda>x. ds_stream x = s) l) = length (filter (\<lambda>x. x = s) (map ds_stream l))"
  by (induction l) auto

lemma count_zero: "s \<notin> set l \<Longrightarrow> filter (\<lambda>x. x = s) l = []"
  by (induction l) auto

lemma map_other_stream:
  "s \<notin> ds_stream ` set l \<Longrightarrow> map (\<lambda>x. if ds_stream x = s then f x else x) l = l"
  by (induction l) auto

lemmas eval_defs = append_stream_dev_def append_init_def plain_ext_def
        search_open_dev_def search_dev_stream_def plain_stream_def empty_dev_def dev_stream_create_def
        cras_iodev_add_stream_def blank_dev_stream_def attach_dev_stream_def pick_init_cb_ts_def
        thread_add_stream_def append_stream_def

subsection \<open>All-or-nothing attach\<close>

lemma search_open_dev_None: "search_open_dev l d = None \<longleftrightarrow> d \<notin> dev ` set l"
  by (auto simp: search_open_dev_def find_None_iff)

lemma append_stream_dev_breaks_iff:
  "(\<exists>rc. append_stream_dev E s d l w = Inl rc) \<longleftrightarrow> attempt_breaks E s w d"
proof
  assume "\<exists>rc. append_stream_dev E s d l w = Inl rc"
  then show "attempt_breaks E s w d"
    by (auto simp: append_stream_dev_break attempt_breaks_def search_open_dev_None
        search_dev_stream_None)
next
  assume a: "attempt_breaks E s w d"
  show "\<exists>rc. append_stream_dev E s d l w = Inl rc"
  proof (cases "dev_stream_alloc E s d")
    case None
    with a have "append_stream_dev E s d l w = Inl (- EINVAL)"
      by (simp add: append_stream_dev_break attempt_breaks_def search_open_dev_None
          search_dev_stream_None)
    then show ?thesis by blast
  next
    case (Some tmpl)
    with a have "append_stream_dev E s d l w = Inl (flush_buffer (iodevs w d))"
      by (auto simp add: append_stream_dev_break attempt_breaks_def search_open_dev_None
          search_dev_stream_None)
    then show ?thesis by blast
  qed
qed

lemma attach_iodevs_other:
  "d' \<noteq> d \<Longrightarrow> iodevs (attach_dev_stream s d out w) d' = iodevs w d'"
  by (simp add: attach_dev_stream_def Let_def cras_iodev_add_stream_def align_input_offsets_def
      cras_iodev_stream_written_def cras_rstream_dev_offset_update_def split: list.splits)

lemma append_stream_dev_other:
  "append_stream_dev E s d l w = Inr (l', w') \<Longrightarrow> d' \<noteq> d \<Longrightarrow> iodevs w' d' = iodevs w d'"
  by (auto simp: append_stream_dev_def Let_def attach_iodevs_other split: option.splits if_splits)

lemma append_stream_dev_same:
  "append_stream_dev E s d l w = Inr (l', w') \<Longrightarrow>
     w' = w \<or> s \<in> ds_stream ` set (streams (iodevs w' d))"
proof -
  assume step: "append_stream_dev E s d l w = Inr (l', w')"
  show ?thesis
  proof (cases "search_open_dev (open_devs (thread w) (direction (rstreams w s))) d")
    case None
    with step show ?thesis by (simp add: append_stream_dev_def)
  next
    case (Some od)
    show ?thesis
    proof (cases "search_dev_stream (streams (iodevs w d)) s")
      case (Some out)
      with step \<open>search_open_dev _ d = Some od\<close> show ?thesis by (simp add: append_stream_dev_def)
    next
      case None
      from append_stream_dev_binds [OF \<open>search_open_dev _ d = Some od\<close> None step]
      have "s \<in> set (map ds_stream (streams (iodevs w' d)))" by simp
      then show ?thesis by simp
    qed
  qed
qed

lemma attempt_breaks_step:
  assumes step: "append_stream_dev E s d l w = Inr (l', w')"
  shows "attempt_breaks E s w' d' = attempt_breaks E s w d'"
proof (cases "d' = d")
  case False
  with append_stream_dev_other [OF step, of d']
       append_stream_dev_thread [OF step] append_stream_dev_direction [OF step, of s]
  show ?thesis by (simp add: attempt_breaks_def)
next
  case True
  from step have not_before: "\<not> attempt_breaks E s w d"
    using append_stream_dev_breaks_iff [of E s d l w] by auto
  have "\<not> attempt_breaks E s w' d"
  proof (cases "w' = w")
    case True
    with not_before show ?thesis by simp
  next
    case False
    with append_stream_dev_same [OF step] have "s \<in> ds_stream ` set (streams (iodevs w' d))"
      by blast
    then show ?thesis by (simp add: attempt_breaks_def)
  qed
  with not_before True show ?thesis by simp
qed

lemma append_stream_loop_fails_iff:
  "fst (append_stream_loop E s devs l w) \<noteq> 0 \<longleftrightarrow> (\<exists>d\<in>set devs. attempt_breaks E s w d)"
proof (induction devs arbitrary: l w)
  case Nil
  then show ?case by simp
next
  case (Cons d ds)
  show ?case
  proof (cases "append_stream_dev E s d l w")
    case (Inl rc)
    then have "attempt_breaks E s w d"
      using append_stream_dev_breaks_iff [of E s d l w] by auto
    moreover from Inl have "rc \<noteq> 0"
      using append_stream_dev_Inl [of E s d l w rc] by simp
    ultimately show ?thesis using Inl by simp
  next
    case (Inr lw)
    obtain l' w' where lw: "lw = (l', w')" by (cases lw)
    with Inr have step: "append_stream_dev E s d l w = Inr (l', w')" by simp
    then have not_here: "\<not> attempt_breaks E s w d"
      using append_stream_dev_breaks_iff [of E s d l w] by auto
    have "fst (append_stream_loop E s (d # ds) l w) = fst (append_stream_loop E s ds l' w')"
      by (simp add: step)
    also have "\<dots> \<noteq> 0 \<longleftrightarrow> (\<exists>d'\<in>set ds. attempt_breaks E s w' d')"
      by (rule Cons.IH)
    finally show ?thesis
      using not_here by (simp add: attempt_breaks_step [OF step])
  qed
qed

text \<open>
  C1: when binding fails on a requested device, that is, the device is open for the stream's
  direction, holds no binding of the stream before the command, and either the creation of
  the binding fails or the stream is an input stream, the device has no streams and its flush
  returns a negative result, then the command replies a negative code and afterwards no open
  device of the stream's direction has a binding of the stream on its list: every binding made
  earlier in the command has been removed.
\<close>

theorem add_stream_failure_rolls_back:
  assumes requested: "d \<in> set devs"
      and opened: "d \<in> dev ` set (open_devs (thread w) (direction (rstreams w s)))"
      and unbound: "s \<notin> ds_stream ` set (streams (iodevs w d))"
      and fails: "dev_stream_alloc E s d = None
                  \<or> direction (rstreams w s) = CRAS_STREAM_INPUT \<and> streams (iodevs w d) = []
                    \<and> flush_buffer (iodevs w d) < 0"
  shows "fst (thread_add_stream E s devs w) < 0
     \<and> thread (snd (thread_add_stream E s devs w)) = thread w
     \<and> list_all (\<lambda>od. filter (\<lambda>ds. ds_stream ds = s)
                     (streams (iodevs (snd (thread_add_stream E s devs w)) (dev od))) = [])
          (open_devs (thread w) (direction (rstreams w s)))"
proof -
  from opened unbound fails have "attempt_breaks E s w d"
    by (simp add: attempt_breaks_def)
  with requested have broke: "fst (append_stream_loop E s devs append_init w) \<noteq> 0"
    unfolding append_stream_loop_fails_iff by blast
  obtain rc w1 where loop: "append_stream_loop E s devs append_init w = (rc, w1)"
    by (cases "append_stream_loop E s devs append_init w")
  from broke loop have nz: "rc \<noteq> 0" by simp
  with append_stream_loop_rc [OF loop] have neg: "rc < 0" by simp
  have th: "thread w1 = thread w" by (rule append_stream_loop_thread [OF loop])
  have dir: "direction (rstreams w1 s) = direction (rstreams w s)"
    by (rule append_stream_loop_direction [OF loop])
  let ?ods = "open_devs (thread w) (direction (rstreams w s))"
  have res: "thread_add_stream E s devs w = (rc, append_stream_rollback s ?ods w1)"
    using loop nz neg by (simp add: thread_add_stream_def append_stream_def th dir)
  have "filter (\<lambda>ds. ds_stream ds = s)
          (streams (iodevs (append_stream_rollback s ?ods w1) (dev od))) = []"
    if "od \<in> set ?ods" for od
  proof -
    from that have "s \<notin> ds_stream ` set (streams (iodevs (append_stream_rollback s ?ods w1) (dev od)))"
      by (simp add: rollback_streams)
    then show ?thesis by (auto simp: filter_empty_conv)
  qed
  then show ?thesis
    using res neg th by (simp add: list_all_iff)
qed

theorem add_stream_failure_rolls_back_witness:
  "map ds_stream (streams (iodevs (snd (append_stream_loop plain_ext 7 [2, 3] append_init two_inputs_world)) 2))
       = [7]
   \<and> fst (thread_add_stream plain_ext 7 [2, 3] two_inputs_world) < 0
   \<and> streams (iodevs (snd (thread_add_stream plain_ext 7 [2, 3] two_inputs_world)) 2) = []
   \<and> streams (iodevs (snd (thread_add_stream plain_ext 7 [2, 3] two_inputs_world)) 3) = []
   \<and> fst (thread_add_stream failing_ext 7 [2, 3] two_outputs_world) < 0
   \<and> map ds_stream (streams (iodevs (snd (thread_add_stream failing_ext 7 [2, 3] two_outputs_world)) 2))
       = [10]
   \<and> map ds_stream (streams (iodevs (snd (thread_add_stream failing_ext 7 [2, 3] two_outputs_world)) 3))
       = [11]"
proof -
  have requested: "(3::nat) \<in> set [2, 3]" by simp
  have opened_in: "3 \<in> dev ` set (open_devs (thread two_inputs_world) (direction (rstreams two_inputs_world 7)))"
    by (simp add: two_inputs_world_def plain_stream_def)
  have unbound_in: "7 \<notin> ds_stream ` set (streams (iodevs two_inputs_world 3))"
    by (simp add: two_inputs_world_def empty_dev_def)
  have fails_in: "dev_stream_alloc plain_ext 7 3 = None
      \<or> direction (rstreams two_inputs_world 7) = CRAS_STREAM_INPUT
        \<and> streams (iodevs two_inputs_world 3) = [] \<and> flush_buffer (iodevs two_inputs_world 3) < 0"
    by (simp add: two_inputs_world_def empty_dev_def plain_stream_def)
  note t_in = add_stream_failure_rolls_back [OF requested opened_in unbound_in fails_in]
  have opened_out: "3 \<in> dev ` set (open_devs (thread two_outputs_world) (direction (rstreams two_outputs_world 7)))"
    by (simp add: two_outputs_world_def plain_stream_def)
  have unbound_out: "7 \<notin> ds_stream ` set (streams (iodevs two_outputs_world 3))"
    by (simp add: two_outputs_world_def empty_dev_def bound_stream_def)
  have fails_out: "dev_stream_alloc failing_ext 7 3 = None
      \<or> direction (rstreams two_outputs_world 7) = CRAS_STREAM_INPUT
        \<and> streams (iodevs two_outputs_world 3) = [] \<and> flush_buffer (iodevs two_outputs_world 3) < 0"
    by (simp add: failing_ext_def)
  note t_out = add_stream_failure_rolls_back [OF requested opened_out unbound_out fails_out]
  have bound_before: "map ds_stream
      (streams (iodevs (snd (append_stream_loop plain_ext 7 [2, 3] append_init two_inputs_world)) 2)) = [7]"
    by (simp add: append_stream_dev_def append_init_def two_inputs_world_def plain_ext_def
        search_open_dev_def search_dev_stream_def plain_stream_def empty_dev_def dev_stream_create_def
        cras_iodev_add_stream_def blank_dev_stream_def attach_dev_stream_def pick_init_cb_ts_def)
  have ods_in: "open_devs (thread two_inputs_world) (direction (rstreams two_inputs_world 7))
      = [\<lparr>dev = 2, wake_ts = ts0\<rparr>, \<lparr>dev = 3, wake_ts = ts0\<rparr>]"
    by (simp add: two_inputs_world_def plain_stream_def)
  have in_state: "streams (iodevs (snd (thread_add_stream plain_ext 7 [2, 3] two_inputs_world)) 2) = []"
      "streams (iodevs (snd (thread_add_stream plain_ext 7 [2, 3] two_inputs_world)) 3) = []"
    by (simp_all add: eval_defs two_inputs_world_def cras_iodev_rm_stream_def dev_stream_destroy_def)
  have out_state:
      "map ds_stream (streams (iodevs (snd (thread_add_stream failing_ext 7 [2, 3] two_outputs_world)) 2)) = [10]"
      "map ds_stream (streams (iodevs (snd (thread_add_stream failing_ext 7 [2, 3] two_outputs_world)) 3)) = [11]"
    by (simp_all add: eval_defs failing_ext_def two_outputs_world_def cras_iodev_rm_stream_def
        dev_stream_destroy_def bound_stream_def timespec_after_def EINVAL_def)
  from t_in t_out bound_before in_state out_state show ?thesis by blast
qed

subsection \<open>Initial callback time on the second device of a command\<close>

text \<open>
  With the locals as they are on entry, the walk over the streams of a device picks the
  earliest callback time that is present, and a command for a single output device gives the
  new binding that time, or the clock reading when no stream of the device has one.
\<close>

lemma not_after_trans:
  "\<not> timespec_after a b \<Longrightarrow> \<not> timespec_after b c \<Longrightarrow> \<not> timespec_after a c"
  by (auto simp: timespec_after_def)

lemma after_not_after: "timespec_after a b \<Longrightarrow> \<not> timespec_after b a"
  by (auto simp: timespec_after_def)

lemma earliest_cb_ts_set:
  assumes "cb_ts_set l"
  shows "cb_ts_set (earliest_cb_ts xs l)
     \<and> (init_cb_ts (earliest_cb_ts xs l) = init_cb_ts l
        \<or> Some (init_cb_ts (earliest_cb_ts xs l)) \<in> ds_next_cb_ts ` set xs)
     \<and> \<not> timespec_after (init_cb_ts (earliest_cb_ts xs l)) (init_cb_ts l)
     \<and> (\<forall>x\<in>set xs. \<forall>t. ds_next_cb_ts x = Some t \<longrightarrow>
           \<not> timespec_after (init_cb_ts (earliest_cb_ts xs l)) t)"
  using assms
proof (induction xs arbitrary: l)
  case Nil
  then show ?case by (simp add: timespec_after_def)
next
  case (Cons x xs)
  show ?case
  proof (cases "ds_next_cb_ts x")
    case None
    with Cons.IH [OF Cons.prems] show ?thesis by auto
  next
    case (Some t)
    show ?thesis
    proof (cases "timespec_after (init_cb_ts l) t")
      case True
      let ?l' = "l\<lparr>init_cb_ts := t, cb_ts_set := True\<rparr>"
      have e: "earliest_cb_ts (x # xs) l = earliest_cb_ts xs ?l'"
        using Some True by simp
      have ih: "cb_ts_set (earliest_cb_ts xs ?l')
         \<and> (init_cb_ts (earliest_cb_ts xs ?l') = t
            \<or> Some (init_cb_ts (earliest_cb_ts xs ?l')) \<in> ds_next_cb_ts ` set xs)
         \<and> \<not> timespec_after (init_cb_ts (earliest_cb_ts xs ?l')) t
         \<and> (\<forall>x\<in>set xs. \<forall>t. ds_next_cb_ts x = Some t \<longrightarrow>
               \<not> timespec_after (init_cb_ts (earliest_cb_ts xs ?l')) t)"
        using Cons.IH [of ?l'] by simp
      have "\<not> timespec_after (init_cb_ts (earliest_cb_ts xs ?l')) (init_cb_ts l)"
        using ih after_not_after [OF True] not_after_trans by blast
      with ih Some show ?thesis
        unfolding e by (auto simp: image_iff intro: bexI [of _ x])
    next
      case False
      then have e: "earliest_cb_ts (x # xs) l = earliest_cb_ts xs l"
        using Some Cons.prems by simp
      have "\<not> timespec_after (init_cb_ts (earliest_cb_ts xs l)) t"
        using Cons.IH [OF Cons.prems] False not_after_trans by blast
      with Cons.IH [OF Cons.prems] Some show ?thesis
        unfolding e by auto
    qed
  qed
qed

lemma earliest_cb_ts_unset:
  assumes "\<not> cb_ts_set l"
  shows "(cb_ts_set (earliest_cb_ts xs l) \<longleftrightarrow> (\<exists>x\<in>set xs. ds_next_cb_ts x \<noteq> None))
     \<and> (cb_ts_set (earliest_cb_ts xs l) \<longrightarrow>
          Some (init_cb_ts (earliest_cb_ts xs l)) \<in> ds_next_cb_ts ` set xs
          \<and> (\<forall>x\<in>set xs. \<forall>t. ds_next_cb_ts x = Some t \<longrightarrow>
                \<not> timespec_after (init_cb_ts (earliest_cb_ts xs l)) t))"
  using assms
proof (induction xs arbitrary: l)
  case Nil
  then show ?case by simp
next
  case (Cons x xs)
  show ?case
  proof (cases "ds_next_cb_ts x")
    case None
    with Cons.IH [OF Cons.prems] show ?thesis by auto
  next
    case (Some t)
    let ?l' = "l\<lparr>init_cb_ts := t, cb_ts_set := True\<rparr>"
    have e: "earliest_cb_ts (x # xs) l = earliest_cb_ts xs ?l'"
      using Some Cons.prems by simp
    have s: "cb_ts_set (earliest_cb_ts xs ?l')
         \<and> (init_cb_ts (earliest_cb_ts xs ?l') = t
            \<or> Some (init_cb_ts (earliest_cb_ts xs ?l')) \<in> ds_next_cb_ts ` set xs)
         \<and> \<not> timespec_after (init_cb_ts (earliest_cb_ts xs ?l')) t
         \<and> (\<forall>x\<in>set xs. \<forall>t. ds_next_cb_ts x = Some t \<longrightarrow>
               \<not> timespec_after (init_cb_ts (earliest_cb_ts xs ?l')) t)"
      using earliest_cb_ts_set [of ?l' xs] by simp
    with Some show ?thesis
      unfolding e by (auto simp: image_iff intro: bexI [of _ x])
  qed
qed

lemma single_output_attach_init_cb_ts:
  assumes outp: "direction (rstreams w s) = CRAS_STREAM_OUTPUT"
      and opened: "search_open_dev (open_devs (thread w) CRAS_STREAM_OUTPUT) d = Some od"
      and fresh: "search_dev_stream (streams (iodevs w d)) s = None"
      and created: "dev_stream_alloc E s d = Some tmpl"
  shows "fst (thread_add_stream E s [d] w) = 0
     \<and> streams (iodevs (snd (thread_add_stream E s [d] w)) d)
         = streams (iodevs w d) @
           [tmpl\<lparr>ds_stream := s, ds_dev_id := info_idx (iodevs w d),
                 ds_init_cb_ts := init_cb_ts (pick_init_cb_ts E s d append_init w)\<rparr>]
     \<and> (if \<exists>x\<in>set (streams (iodevs w d)). ds_next_cb_ts x \<noteq> None
         then Some (init_cb_ts (pick_init_cb_ts E s d append_init w)) \<in> ds_next_cb_ts ` set (streams (iodevs w d))
            \<and> (\<forall>x\<in>set (streams (iodevs w d)). \<forall>t. ds_next_cb_ts x = Some t \<longrightarrow>
                  \<not> timespec_after (init_cb_ts (pick_init_cb_ts E s d append_init w)) t)
         else init_cb_ts (pick_init_cb_ts E s d append_init w) = clock_monotonic_raw E)"
proof -
  let ?l2 = "pick_init_cb_ts E s d append_init w"
  let ?out = "tmpl\<lparr>ds_stream := s, ds_dev_id := info_idx (iodevs w d), ds_init_cb_ts := init_cb_ts ?l2\<rparr>"
  have step: "append_stream_dev E s d append_init w = Inr (?l2, attach_dev_stream s d ?out w)"
    using opened fresh created outp
    by (simp add: append_stream_dev_def Let_def dev_stream_create_def)
  have att: "attach_dev_stream s d ?out w = cras_iodev_add_stream d ?out w"
    by (cases "streams (iodevs w d)")
       (simp_all add: attach_dev_stream_def Let_def cras_iodev_add_stream_def outp)
  have res: "thread_add_stream E s [d] w = (0, cras_iodev_add_stream d ?out w)"
    by (rule thread_add_stream_ok_iff) (simp add: step att)
  have unset: "\<not> cb_ts_set append_init" by (simp add: append_init_def)
  note e = earliest_cb_ts_unset [OF unset, of "streams (iodevs w d)"]
  have pick: "(if \<exists>x\<in>set (streams (iodevs w d)). ds_next_cb_ts x \<noteq> None
         then Some (init_cb_ts ?l2) \<in> ds_next_cb_ts ` set (streams (iodevs w d))
            \<and> (\<forall>x\<in>set (streams (iodevs w d)). \<forall>t. ds_next_cb_ts x = Some t \<longrightarrow>
                  \<not> timespec_after (init_cb_ts ?l2) t)
         else init_cb_ts ?l2 = clock_monotonic_raw E)"
  proof (cases "\<exists>x\<in>set (streams (iodevs w d)). ds_next_cb_ts x \<noteq> None")
    case True
    then have ne: "streams (iodevs w d) \<noteq> []" by auto
    from True e have set: "cb_ts_set (earliest_cb_ts (streams (iodevs w d)) append_init)" by blast
    have "?l2 = earliest_cb_ts (streams (iodevs w d)) append_init"
      using set ne by (simp add: pick_init_cb_ts_def outp)
    with e set True show ?thesis by simp
  next
    case False
    with e have unset': "\<not> cb_ts_set (earliest_cb_ts (streams (iodevs w d)) append_init)" by blast
    have "init_cb_ts ?l2 = clock_monotonic_raw E"
      using unset' unset by (simp add: pick_init_cb_ts_def Let_def)
    with False show ?thesis by simp
  qed
  show ?thesis
    using pick unfolding res by (simp add: cras_iodev_add_stream_def)
qed

text \<open>
  C2 at a failing input: output devices 2 and 3 are open, device 2 holds a stream whose next
  callback time is 5 s and device 3 one whose next callback time is 10 s. Attaching stream 7
  to both in one command gives the new binding on device 3 the initial callback time 5 s,
  carried over from device 2, and not 10 s, the earliest time on device 3.
\<close>

theorem add_stream_second_device_init_cb_ts:
  "map ds_next_cb_ts (streams (iodevs two_outputs_world 3)) = [Some \<lparr>tv_sec = 10, tv_nsec = 0\<rparr>]
   \<and> fst (thread_add_stream plain_ext 7 [2, 3] two_outputs_world) = 0
   \<and> map ds_stream (streams (iodevs (snd (thread_add_stream plain_ext 7 [2, 3] two_outputs_world)) 3))
       = [11, 7]
   \<and> map ds_init_cb_ts (filter (\<lambda>x. ds_stream x = 7)
        (streams (iodevs (snd (thread_add_stream plain_ext 7 [2, 3] two_outputs_world)) 3)))
       = [\<lparr>tv_sec = 5, tv_nsec = 0\<rparr>]"
  by (simp add: eval_defs two_outputs_world_def bound_stream_def timespec_after_def)

subsection \<open>Offset alignment of a later input stream\<close>

text \<open>
  C3: attaching the input stream \<open>s2\<close> to an open input device that already holds bindings,
  none of them of \<open>s2\<close>, succeeds once the binding can be created; the existing bindings stay
  as they are, the new binding comes last with the offset
  \<open>min (offset of the first existing binding) (cb_threshold of s2)\<close>, and the offset of \<open>s2\<close>
  for the device's index is \<open>min (that offset of the first binding's stream) (cb_threshold of s2)\<close>.
\<close>

theorem input_attach_aligns_offsets:
  assumes inp: "direction (rstreams w s2) = CRAS_STREAM_INPUT"
      and opened: "search_open_dev (open_devs (thread w) CRAS_STREAM_INPUT) d = Some od"
      and existing: "streams (iodevs w d) = first # rest"
      and fresh: "search_dev_stream (first # rest) s2 = None"
      and created: "dev_stream_alloc E s2 d = Some tmpl"
  shows "fst (thread_add_stream E s2 [d] w) = 0
     \<and> streams (iodevs (snd (thread_add_stream E s2 [d] w)) d)
         = first # rest @ [tmpl\<lparr>ds_stream := s2, ds_dev_id := info_idx (iodevs w d),
                                ds_init_cb_ts := clock_monotonic_raw E,
                                ds_offset := min (cras_iodev_stream_offset first) (cb_threshold (rstreams w s2))\<rparr>]
     \<and> cras_rstream_dev_offset (rstreams (snd (thread_add_stream E s2 [d] w)) s2) (info_idx (iodevs w d))
         = min (cras_rstream_dev_offset (rstreams w (ds_stream first)) (info_idx (iodevs w d)))
               (cb_threshold (rstreams w s2))"
proof -
  define out where "out = tmpl\<lparr>ds_stream := s2, ds_dev_id := info_idx (iodevs w d),
                                ds_init_cb_ts := clock_monotonic_raw E\<rparr>"
  have out_s: "ds_stream out = s2" by (simp add: out_def)
  from fresh have notin: "s2 \<notin> ds_stream ` set (first # rest)"
    by (simp add: search_dev_stream_None)
  have first_ne: "first \<noteq> out"
  proof
    assume "first = out"
    then have "ds_stream first = s2" by (simp add: out_s)
    with notin show False by simp
  qed
  have pick: "init_cb_ts (pick_init_cb_ts E s2 d append_init w) = clock_monotonic_raw E"
    by (simp add: pick_init_cb_ts_def inp append_init_def)
  have create: "dev_stream_create E s2 (info_idx (iodevs w d)) d (clock_monotonic_raw E) = Some out"
    by (simp add: dev_stream_create_def created out_def)
  have step: "append_stream_dev E s2 d append_init w
      = Inr (pick_init_cb_ts E s2 d append_init w, attach_dev_stream s2 d out w)"
    using opened fresh by (simp add: append_stream_dev_def inp existing Let_def pick create)
  let ?w1 = "cras_iodev_add_stream d out w"
  have att: "attach_dev_stream s2 d out w = align_input_offsets s2 d first out ?w1"
    using first_ne by (simp add: attach_dev_stream_def cras_iodev_add_stream_def existing inp)
  have res: "thread_add_stream E s2 [d] w = (0, align_input_offsets s2 d first out ?w1)"
    by (rule thread_add_stream_ok_iff) (simp add: step att)
  have str: "streams (iodevs (align_input_offsets s2 d first out ?w1) d)
      = first # rest @ [out\<lparr>ds_offset := min (ds_offset first) (cb_threshold (rstreams w s2))\<rparr>]"
    using notin
    by (simp add: align_streams cras_iodev_add_stream_def existing out_s map_other_stream)
  have off: "dev_offset (rstreams (align_input_offsets s2 d first out ?w1) s2) (info_idx (iodevs w d))
      = min (dev_offset (rstreams w (ds_stream first)) (info_idx (iodevs w d))) (cb_threshold (rstreams w s2))"
    by (simp add: align_input_offsets_def Let_def cras_iodev_stream_written_def
        cras_rstream_dev_offset_update_def cras_rstream_dev_offset_def cras_iodev_add_stream_def min_def)
  show ?thesis
    using str off unfolding res out_def
    by (simp add: cras_iodev_stream_offset_def cras_rstream_dev_offset_def)
qed

theorem input_attach_aligns_offsets_witness:
  "fst (thread_add_stream plain_ext 7 [2] shared_input_world) = 0
   \<and> map ds_offset (streams (iodevs (snd (thread_add_stream plain_ext 7 [2] shared_input_world)) 2))
       = [800, 512]
   \<and> cras_rstream_dev_offset (rstreams (snd (thread_add_stream plain_ext 7 [2] shared_input_world)) 7) 2
       = 512"
proof -
  have inp: "direction (rstreams shared_input_world 7) = CRAS_STREAM_INPUT"
    by (simp add: shared_input_world_def plain_stream_def)
  have opened: "search_open_dev (open_devs (thread shared_input_world) CRAS_STREAM_INPUT) 2
      = Some \<lparr>dev = 2, wake_ts = ts0\<rparr>"
    by (simp add: shared_input_world_def search_open_dev_def)
  have existing: "streams (iodevs shared_input_world 2) = bound_stream 5 None 800 # []"
    by (simp add: shared_input_world_def empty_dev_def)
  have fresh: "search_dev_stream (bound_stream 5 None 800 # []) 7 = None"
    by (simp add: search_dev_stream_def bound_stream_def)
  have created: "dev_stream_alloc plain_ext 7 2 = Some blank_dev_stream"
    by (simp add: plain_ext_def)
  show ?thesis
    using input_attach_aligns_offsets [OF inp opened existing fresh created]
    by (simp add: shared_input_world_def plain_stream_def cras_iodev_stream_offset_def
        cras_rstream_dev_offset_def bound_stream_def empty_dev_def)
qed

subsection \<open>Idempotent attach\<close>

text \<open>
  C7: when device \<open>d\<close> is open for the direction of stream \<open>s\<close>, holds at most one binding
  of \<open>s\<close>, and a first add-stream command for \<open>[d]\<close> has replied 0, then a second such
  command replies 0 and changes nothing, and \<open>d\<close> holds exactly one binding of \<open>s\<close>.
\<close>

theorem add_stream_idempotent:
  assumes opened: "search_open_dev (open_devs (thread w) (direction (rstreams w s))) d = Some od"
      and inv: "length (filter (\<lambda>x. ds_stream x = s) (streams (iodevs w d))) \<le> 1"
      and first: "thread_add_stream E s [d] w = (0, w1)"
  shows "thread_add_stream E' s [d] w1 = (0, w1)
       \<and> length (filter (\<lambda>x. ds_stream x = s) (streams (iodevs w1 d))) = 1"
proof -
  from thread_add_stream_ok [OF first]
  have loop: "append_stream_loop E s [d] append_init w = (0, w1)" .
  then obtain l' where step: "append_stream_dev E s d append_init w = Inr (l', w1)"
    by (auto simp: append_stream_single split: sum.splits dest: append_stream_dev_Inl)
  have th: "thread w1 = thread w" by (rule append_stream_dev_thread [OF step])
  have dir: "direction (rstreams w1 s) = direction (rstreams w s)"
    by (rule append_stream_dev_direction [OF step])
  have bound_cnt: "s \<in> ds_stream ` set (streams (iodevs w1 d))
      \<and> length (filter (\<lambda>x. ds_stream x = s) (streams (iodevs w1 d))) = 1"
  proof (cases "search_dev_stream (streams (iodevs w d)) s")
    case None
    from append_stream_dev_binds [OF opened None step]
    have m: "map ds_stream (streams (iodevs w1 d)) = map ds_stream (streams (iodevs w d)) @ [s]"
      by blast
    from None have "s \<notin> set (map ds_stream (streams (iodevs w d)))"
      by (simp add: search_dev_stream_None)
    then have "length (filter (\<lambda>x. x = s) (map ds_stream (streams (iodevs w1 d)))) = 1"
      by (simp add: m count_zero)
    moreover have "s \<in> set (map ds_stream (streams (iodevs w1 d)))"
      by (simp add: m)
    ultimately show ?thesis by (simp add: count_stream_map)
  next
    case (Some out)
    with opened step have same: "w1 = w" by (simp add: append_stream_dev_def)
    from Some have mem: "s \<in> ds_stream ` set (streams (iodevs w d))"
      using search_dev_stream_Some_iff by blast
    then have "filter (\<lambda>x. ds_stream x = s) (streams (iodevs w d)) \<noteq> []"
      by (auto simp: filter_empty_conv)
    with inv have "length (filter (\<lambda>x. ds_stream x = s) (streams (iodevs w d))) = 1"
      by (cases "filter (\<lambda>x. ds_stream x = s) (streams (iodevs w d))") auto
    with mem show ?thesis by (simp add: same)
  qed
  then obtain out where found: "search_dev_stream (streams (iodevs w1 d)) s = Some out"
    using search_dev_stream_Some_iff by blast
  have "append_stream_dev E' s d append_init w1 = Inr (append_init, w1)"
    using opened found by (simp add: append_stream_dev_def th dir)
  then have "append_stream_loop E' s [d] append_init w1 = (0, w1)"
    by (simp add: append_stream_single)
  then have "thread_add_stream E' s [d] w1 = (0, w1)"
    by (rule thread_add_stream_ok_iff)
  with bound_cnt show ?thesis by simp
qed

theorem add_stream_idempotent_witness:
  "thread_add_stream plain_ext 7 [2] (snd (thread_add_stream plain_ext 7 [2] one_output_world))
     = (0, snd (thread_add_stream plain_ext 7 [2] one_output_world))
   \<and> length (filter (\<lambda>x. ds_stream x = 7)
        (streams (iodevs (snd (thread_add_stream plain_ext 7 [2] one_output_world)) 2))) = 1"
proof -
  have opened: "search_open_dev
      (open_devs (thread one_output_world) (direction (rstreams one_output_world 7))) 2
      = Some \<lparr>dev = 2, wake_ts = ts0\<rparr>"
    by (simp add: one_output_world_def search_open_dev_def plain_stream_def)
  have inv: "length (filter (\<lambda>x. ds_stream x = 7) (streams (iodevs one_output_world 2))) \<le> 1"
    by (simp add: one_output_world_def empty_dev_def)
  have "fst (thread_add_stream plain_ext 7 [2] one_output_world) = 0"
    by (simp add: eval_defs one_output_world_def)
  then have first: "thread_add_stream plain_ext 7 [2] one_output_world
      = (0, snd (thread_add_stream plain_ext 7 [2] one_output_world))"
    by (simp add: prod_eq_iff)
  show ?thesis
    by (rule add_stream_idempotent [OF opened inv first])
qed


subsection \<open>Draining an output stream\<close>

lemma fold_rm_thread [simp]:
  "thread (fold (\<lambda>od. cras_iodev_rm_stream (dev od) s) ods w) = thread w"
  by (induction ods arbitrary: w) (auto simp: cras_iodev_rm_stream_def)

lemma fold_rm_rstreams [simp]:
  "rstreams (fold (\<lambda>od. cras_iodev_rm_stream (dev od) s) ods w) = rstreams w"
  by (induction ods arbitrary: w) (auto simp: cras_iodev_rm_stream_def)

lemma fold_rm_streams:
  "streams (iodevs (fold (\<lambda>od. cras_iodev_rm_stream (dev od) s) ods w) d)
   = (if d \<in> dev ` set ods then filter (\<lambda>ds. ds_stream ds \<noteq> s) (streams (iodevs w d))
      else streams (iodevs w d))"
  by (induction ods arbitrary: w) (auto simp: cras_iodev_rm_stream_def)

lemma thread_find_stream_0_iff:
  "thread_find_stream s w = 0 \<longleftrightarrow>
     list_all (\<lambda>od. search_dev_stream (streams (iodevs w (dev od))) s = None)
       (open_devs (thread w) (direction (rstreams w s)))"
  by (auto simp: thread_find_stream_def list_ex_iff list_all_iff search_dev_stream_None)

lemma remove_everywhere:
  "list_all (\<lambda>od. search_dev_stream (streams (iodevs (dev_io_remove_stream ods s None w) (dev od))) s = None) ods"
  by (auto simp: dev_io_remove_stream_def list_all_iff fold_rm_streams search_dev_stream_None)

lemma unat_ms_even: "even (unat (1000 * frames :: 32 word))"
proof -
  have "unat (1000 * frames) = (1000 * unat frames) mod 2 ^ 32"
    by (simp add: unat_word_ariths)
  moreover have "even ((1000 * unat frames) mod 2 ^ 32)"
    by (rule dvd_mod) simp_all
  ultimately show ?thesis by simp
qed

lemma frames_to_ms_not_max:
  assumes "rate \<noteq> 0"
  shows "1 + (1000 * frames div rate :: 32 word) \<noteq> 0"
proof
  assume z: "1 + 1000 * frames div rate = 0"
  let ?x = "1000 * frames div rate"
  have "unat (1 + ?x) = (1 + unat ?x) mod 2 ^ 32"
    by (simp add: unat_word_ariths)
  with z have m: "(1 + unat ?x) mod 4294967296 = 0" by simp
  have xlt: "unat ?x < 4294967296"
    using unsigned_less [of ?x, where ?'a = nat] by simp
  have "unat ?x = 4294967295"
  proof (rule ccontr)
    assume "unat ?x \<noteq> 4294967295"
    with xlt have "1 + unat ?x < 4294967296" by simp
    then have "(1 + unat ?x) mod 4294967296 = 1 + unat ?x" by (rule mod_less)
    with m show False by simp
  qed
  then have q: "unat (1000 * frames) div unat rate = 4294967295"
    by (simp add: unat_div)
  have lt: "unat (1000 * frames) < 4294967296"
    using unsigned_less [of "1000 * frames", where ?'a = nat] by simp
  from assms have r: "0 < unat rate" by (simp add: unat_gt_0)
  show False
  proof (cases "unat rate = 1")
    case True
    with q have "unat (1000 * frames) = 4294967295" by simp
    with unat_ms_even [of frames] show False by simp
  next
    case False
    with r have "2 \<le> unat rate" by simp
    then have "unat (1000 * frames) div unat rate \<le> unat (1000 * frames) div 2"
      by (rule div_le_mono2 [rotated]) simp
    with lt q show False by simp
  qed
qed


lemma fold_rm_clean:
  "list_all (\<lambda>od. filter (\<lambda>ds. ds_stream ds = s)
       (streams (iodevs (dev_io_remove_stream ods s None w) (dev od))) = []) ods"
  by (auto simp: dev_io_remove_stream_def list_all_iff fold_rm_streams filter_empty_conv)

lemma draining_world_facts:
  "thread_find_stream 7 (draining_world n) \<noteq> 0"
  "direction (rstreams (draining_world n) 7) = CRAS_STREAM_OUTPUT"
  "shm_frames (rstreams (draining_world n) 7) = n"
  "frame_rate (rstreams (draining_world n) 7) = 48000"
  by (simp_all add: thread_find_stream_def draining_world_def plain_stream_def bound_stream_def
      blank_dev_stream_def)

text \<open>
  C4: for a drain command on an attached output stream: when the shared memory holds no frames
  (zero or fewer), the reply is 0 and the stream is detached from every open output device;
  when it holds frames, the stream is marked as draining, stays attached, and the reply is
  \<open>1 + cras_frames_to_ms frames rate\<close> as line 482 computes it, in C's 32-bit arithmetic,
  with no reply at all where the helper divides by zero. For 4800 frames at 48000 Hz the
  reply is 101.
\<close>

theorem drain_output_stream:
  assumes attached: "thread_find_stream s w \<noteq> 0"
      and outp: "direction (rstreams w s) = CRAS_STREAM_OUTPUT"
  shows "(sint (shm_frames (rstreams w s)) \<le> 0 \<longrightarrow>
            thread_drain_stream s w
              = Some (0, dev_io_remove_stream (open_devs (thread w) CRAS_STREAM_OUTPUT) s None w)
          \<and> list_all (\<lambda>od. filter (\<lambda>ds. ds_stream ds = s)
                 (streams (iodevs (dev_io_remove_stream (open_devs (thread w) CRAS_STREAM_OUTPUT) s None w)
                    (dev od))) = [])
               (open_devs (thread w) CRAS_STREAM_OUTPUT)
          \<and> thread_find_stream s
               (dev_io_remove_stream (open_devs (thread w) CRAS_STREAM_OUTPUT) s None w) = 0)
       \<and> (0 < sint (shm_frames (rstreams w s)) \<longrightarrow>
            thread_drain_stream s w
              = (case cras_frames_to_ms (shm_frames (rstreams w s))
                        (word_of_nat (frame_rate (rstreams w s))) of
                   None \<Rightarrow> None
                 | Some ms \<Rightarrow> Some (sint (1 + ms), cras_rstream_set_is_draining s True w))
          \<and> is_draining (rstreams (cras_rstream_set_is_draining s True w) s)
          \<and> iodevs (cras_rstream_set_is_draining s True w) = iodevs w)"
proof (intro conjI impI)
  let ?ods = "open_devs (thread w) CRAS_STREAM_OUTPUT"
  assume empty: "sint (shm_frames (rstreams w s)) \<le> 0"
  show "thread_drain_stream s w = Some (0, dev_io_remove_stream ?ods s None w)"
    using attached outp empty
    by (simp add: thread_drain_stream_def thread_drain_stream_ms_remaining_def)
  show "list_all (\<lambda>od. filter (\<lambda>ds. ds_stream ds = s)
      (streams (iodevs (dev_io_remove_stream ?ods s None w) (dev od))) = []) ?ods"
    by (rule fold_rm_clean)
  have th: "thread (dev_io_remove_stream ?ods s None w) = thread w"
    and rs: "rstreams (dev_io_remove_stream ?ods s None w) = rstreams w"
    by (simp_all add: dev_io_remove_stream_def)
  show "thread_find_stream s (dev_io_remove_stream ?ods s None w) = 0"
    using remove_everywhere [of ?ods s w]
    by (simp add: thread_find_stream_0_iff th rs outp)
next
  assume some: "0 < sint (shm_frames (rstreams w s))"
  let ?w1 = "cras_rstream_set_is_draining s True w"
  have rate: "frame_rate (rstreams ?w1 s) = frame_rate (rstreams w s)"
    by (simp add: cras_rstream_set_is_draining_def)
  show "thread_drain_stream s w
        = (case cras_frames_to_ms (shm_frames (rstreams w s))
                  (word_of_nat (frame_rate (rstreams w s))) of
             None \<Rightarrow> None
           | Some ms \<Rightarrow> Some (sint (1 + ms), ?w1))"
  proof (cases "(word_of_nat (frame_rate (rstreams w s)) :: 32 word) = 0")
    case True
    then show ?thesis
      using attached outp some
      by (simp add: thread_drain_stream_def thread_drain_stream_ms_remaining_def Let_def rate
          cras_frames_to_ms_def)
  next
    case False
    from frames_to_ms_not_max [OF False, of "shm_frames (rstreams w s)"]
    have "sint (1 + 1000 * shm_frames (rstreams w s) div word_of_nat (frame_rate (rstreams w s))) \<noteq> 0"
      by (simp add: signed_eq_0_iff)
    with False show ?thesis
      using attached outp some
      by (simp add: thread_drain_stream_def thread_drain_stream_ms_remaining_def Let_def rate
          cras_frames_to_ms_def)
  qed
next
  show "is_draining (rstreams (cras_rstream_set_is_draining s True w) s)"
    by (simp add: cras_rstream_set_is_draining_def)
next
  show "iodevs (cras_rstream_set_is_draining s True w) = iodevs w"
    by (simp add: cras_rstream_set_is_draining_def)
qed

theorem drain_output_stream_witness:
  "thread_drain_stream 7 (draining_world 4800)
     = Some (101, cras_rstream_set_is_draining 7 True (draining_world 4800))
   \<and> is_draining (rstreams (cras_rstream_set_is_draining 7 True (draining_world 4800)) 7)
   \<and> thread_drain_stream 7 (draining_world 0)
     = Some (0, dev_io_remove_stream (open_devs (thread (draining_world 0)) CRAS_STREAM_OUTPUT) 7 None
                  (draining_world 0))
   \<and> streams (iodevs (dev_io_remove_stream (open_devs (thread (draining_world 0)) CRAS_STREAM_OUTPUT)
          7 None (draining_world 0)) 2) = []"
proof -
  note t = drain_output_stream [OF draining_world_facts(1) draining_world_facts(2)]
  have pos: "0 < sint (shm_frames (rstreams (draining_world 4800) 7))"
    by (simp add: draining_world_facts)
  have ms: "cras_frames_to_ms (shm_frames (rstreams (draining_world 4800) 7))
       (word_of_nat (frame_rate (rstreams (draining_world 4800) 7))) = Some 100"
    by (simp add: draining_world_facts cras_frames_to_ms_def)
  from t [of 4800] pos have d: "thread_drain_stream 7 (draining_world 4800)
     = (case cras_frames_to_ms (shm_frames (rstreams (draining_world 4800) 7))
                        (word_of_nat (frame_rate (rstreams (draining_world 4800) 7))) of
                   None \<Rightarrow> None
                 | Some ms \<Rightarrow> Some (sint (1 + ms), cras_rstream_set_is_draining 7 True (draining_world 4800)))"
    and flag: "is_draining (rstreams (cras_rstream_set_is_draining 7 True (draining_world 4800)) 7)"
    by blast+
  have first: "thread_drain_stream 7 (draining_world 4800)
     = Some (101, cras_rstream_set_is_draining 7 True (draining_world 4800))"
    unfolding d ms by simp
  have zero: "sint (shm_frames (rstreams (draining_world 0) 7)) \<le> 0"
    by (simp add: draining_world_facts)
  from t [of 0] zero have gone: "thread_drain_stream 7 (draining_world 0)
     = Some (0, dev_io_remove_stream (open_devs (thread (draining_world 0)) CRAS_STREAM_OUTPUT) 7 None
                  (draining_world 0))"
    by blast
  have left: "streams (iodevs (dev_io_remove_stream (open_devs (thread (draining_world 0)) CRAS_STREAM_OUTPUT)
          7 None (draining_world 0)) 2) = []"
    by (simp add: draining_world_def dev_io_remove_stream_def cras_iodev_rm_stream_def
        bound_stream_def blank_dev_stream_def empty_dev_def)
  from first flag gone left show ?thesis by blast
qed

text \<open>
  Two values of the 32-bit computation: the product of 1000 and 5000000 frames wraps, and the
  rate 0 gives no reply.
\<close>

lemma drain_reply_wraps:
  "thread_drain_stream 7 (draining_world 5000000)
     = Some (14689, cras_rstream_set_is_draining 7 True (draining_world 5000000))"
  by (simp add: thread_drain_stream_def thread_drain_stream_ms_remaining_def Let_def
      draining_world_facts cras_frames_to_ms_def cras_rstream_set_is_draining_def)

lemma drain_rate_zero:
  "thread_drain_stream 7 ((draining_world 4800)\<lparr>rstreams :=
       (\<lambda>i. (plain_stream CRAS_STREAM_OUTPUT i)\<lparr>shm_frames := 4800, frame_rate := 0\<rparr>)\<rparr>) = None"
  by (simp add: thread_drain_stream_def thread_drain_stream_ms_remaining_def Let_def
      thread_find_stream_def draining_world_def plain_stream_def bound_stream_def
      blank_dev_stream_def cras_frames_to_ms_def cras_rstream_set_is_draining_def)

subsection \<open>Draining an input stream\<close>

text \<open>
  C10: a drain command on an attached input stream replies 0 and detaches the stream from
  every open input device: afterwards none of them holds a binding of the stream.
\<close>

theorem drain_input_stream:
  assumes attached: "thread_find_stream s w \<noteq> 0"
      and inp: "direction (rstreams w s) = CRAS_STREAM_INPUT"
  shows "thread_drain_stream s w
           = Some (0, dev_io_remove_stream (open_devs (thread w) CRAS_STREAM_INPUT) s None w)
       \<and> list_all (\<lambda>od. search_dev_stream
              (streams (iodevs (dev_io_remove_stream (open_devs (thread w) CRAS_STREAM_INPUT) s None w)
                 (dev od))) s = None)
            (open_devs (thread w) CRAS_STREAM_INPUT)
       \<and> list_all (\<lambda>od. filter (\<lambda>ds. ds_stream ds = s)
              (streams (iodevs (dev_io_remove_stream (open_devs (thread w) CRAS_STREAM_INPUT) s None w)
                 (dev od))) = [])
            (open_devs (thread w) CRAS_STREAM_INPUT)
       \<and> thread_find_stream s
            (dev_io_remove_stream (open_devs (thread w) CRAS_STREAM_INPUT) s None w) = 0"
proof -
  let ?ods = "open_devs (thread w) CRAS_STREAM_INPUT"
  have res: "thread_drain_stream s w = Some (0, dev_io_remove_stream ?ods s None w)"
    using attached inp
    by (simp add: thread_drain_stream_def thread_drain_stream_ms_remaining_def)
  have th: "thread (dev_io_remove_stream ?ods s None w) = thread w"
    and rs: "rstreams (dev_io_remove_stream ?ods s None w) = rstreams w"
    by (simp_all add: dev_io_remove_stream_def)
  have gone: "thread_find_stream s (dev_io_remove_stream ?ods s None w) = 0"
    using remove_everywhere [of ?ods s w]
    by (simp add: thread_find_stream_0_iff th rs inp)
  from res remove_everywhere [of ?ods s w] fold_rm_clean [of s ?ods w] gone
  show ?thesis by blast
qed

theorem drain_input_stream_witness:
  "thread_drain_stream 7 capture_world
     = Some (0, dev_io_remove_stream (open_devs (thread capture_world) CRAS_STREAM_INPUT) 7 None
                  capture_world)
   \<and> map ds_stream (streams (iodevs
        (dev_io_remove_stream (open_devs (thread capture_world) CRAS_STREAM_INPUT) 7 None capture_world) 2))
       = [5]
   \<and> map ds_stream (streams (iodevs
        (dev_io_remove_stream (open_devs (thread capture_world) CRAS_STREAM_INPUT) 7 None capture_world) 3))
       = [5]
   \<and> thread_find_stream 7
        (dev_io_remove_stream (open_devs (thread capture_world) CRAS_STREAM_INPUT) 7 None capture_world)
       = 0"
proof -
  have attached: "thread_find_stream 7 capture_world \<noteq> 0"
    by (simp add: thread_find_stream_def capture_world_def plain_stream_def bound_stream_def
        blank_dev_stream_def empty_dev_def)
  have inp: "direction (rstreams capture_world 7) = CRAS_STREAM_INPUT"
    by (simp add: capture_world_def plain_stream_def)
  note t = drain_input_stream [OF attached inp]
  from t have reply: "thread_drain_stream 7 capture_world
     = Some (0, dev_io_remove_stream (open_devs (thread capture_world) CRAS_STREAM_INPUT) 7 None
                  capture_world)"
    by blast
  from t have gone: "thread_find_stream 7
      (dev_io_remove_stream (open_devs (thread capture_world) CRAS_STREAM_INPUT) 7 None capture_world) = 0"
    by blast
  have left2: "map ds_stream (streams (iodevs
      (dev_io_remove_stream (open_devs (thread capture_world) CRAS_STREAM_INPUT) 7 None capture_world) 2))
      = [5]"
    by (simp add: capture_world_def dev_io_remove_stream_def cras_iodev_rm_stream_def
        bound_stream_def blank_dev_stream_def empty_dev_def)
  have left3: "map ds_stream (streams (iodevs
      (dev_io_remove_stream (open_devs (thread capture_world) CRAS_STREAM_INPUT) 7 None capture_world) 3))
      = [5]"
    by (simp add: capture_world_def dev_io_remove_stream_def cras_iodev_rm_stream_def
        bound_stream_def blank_dev_stream_def empty_dev_def)
  from reply gone left2 left3 show ?thesis
    by blast
qed


subsection \<open>Busy-loop detection\<close>

lemma check_busyloop_zero:
  assumes "continuous_zero_sleep_count w < INT_MAX"
  shows "check_busyloop \<lparr>tv_sec = 0, tv_nsec = 0\<rparr> w
     = Some (w\<lparr>continuous_zero_sleep_count := continuous_zero_sleep_count w + 1,
               busyloop_events := busyloop_events w
                  + (if continuous_zero_sleep_count w = 1 then 1 else 0)\<rparr>)"
  using assms
  by (simp add: check_busyloop_def Let_def MAX_CONTINUOUS_ZERO_SLEEP_COUNT_def
      cras_audio_thread_busyloop_def)

lemma run_zero_waits:
  assumes "0 \<le> continuous_zero_sleep_count w"
      and "continuous_zero_sleep_count w + int n \<le> INT_MAX"
  shows "run_check_busyloop (replicate n (Some \<lparr>tv_sec = 0, tv_nsec = 0\<rparr>)) w
     = Some (w\<lparr>continuous_zero_sleep_count := continuous_zero_sleep_count w + int n,
               busyloop_events := busyloop_events w
                  + (if continuous_zero_sleep_count w < 2 \<and> 2 \<le> continuous_zero_sleep_count w + int n
                     then 1 else 0)\<rparr>)"
  using assms
proof (induction n arbitrary: w)
  case 0
  then show ?case by simp
next
  case (Suc n)
  let ?c = "continuous_zero_sleep_count w"
  let ?w1 = "w\<lparr>continuous_zero_sleep_count := ?c + 1,
               busyloop_events := busyloop_events w + (if ?c = 1 then 1 else 0)\<rparr>"
  from Suc.prems have lt: "?c < INT_MAX" by simp
  have step: "loop_check_busyloop (Some \<lparr>tv_sec = 0, tv_nsec = 0\<rparr>) w = Some ?w1"
    by (simp add: loop_check_busyloop_def check_busyloop_zero [OF lt])
  have ih: "run_check_busyloop (replicate n (Some \<lparr>tv_sec = 0, tv_nsec = 0\<rparr>)) ?w1
     = Some (?w1\<lparr>continuous_zero_sleep_count := continuous_zero_sleep_count ?w1 + int n,
               busyloop_events := busyloop_events ?w1
                  + (if continuous_zero_sleep_count ?w1 < 2 \<and> 2 \<le> continuous_zero_sleep_count ?w1 + int n
                     then 1 else 0)\<rparr>)"
    using Suc.prems by (intro Suc.IH) simp_all
  show ?case
    using Suc.prems by (simp add: step ih)
qed

text \<open>
  C5: a check with a non-zero wait sets the counter of consecutive zero waits to zero and
  raises no signal; and from a counter of zero, \<open>n\<close> consecutive checks with a zero wait
  leave the counter at \<open>n\<close> and raise exactly one BusyLoop signal when \<open>n\<close> is at least two,
  none before the second. The run is taken up to \<open>INT_MAX\<close> checks, the range in which the
  increment of the C \<^verbatim>\<open>int\<close> counter is defined.
\<close>

theorem busyloop_signal_once:
  "(tv_sec t \<noteq> 0 \<or> tv_nsec t \<noteq> 0 \<longrightarrow>
      loop_check_busyloop (Some t) w = Some (w\<lparr>continuous_zero_sleep_count := 0\<rparr>))
   \<and> (continuous_zero_sleep_count w = 0 \<and> int n \<le> INT_MAX \<longrightarrow>
      run_check_busyloop (replicate n (Some \<lparr>tv_sec = 0, tv_nsec = 0\<rparr>)) w
        = Some (w\<lparr>continuous_zero_sleep_count := int n,
                  busyloop_events := busyloop_events w + (if 2 \<le> n then 1 else 0)\<rparr>))"
proof (intro conjI impI)
  assume "tv_sec t \<noteq> 0 \<or> tv_nsec t \<noteq> 0"
  then show "loop_check_busyloop (Some t) w = Some (w\<lparr>continuous_zero_sleep_count := 0\<rparr>)"
    by (auto simp: loop_check_busyloop_def check_busyloop_def)
next
  assume a: "continuous_zero_sleep_count w = 0 \<and> int n \<le> INT_MAX"
  then have "run_check_busyloop (replicate n (Some \<lparr>tv_sec = 0, tv_nsec = 0\<rparr>)) w
     = Some (w\<lparr>continuous_zero_sleep_count := continuous_zero_sleep_count w + int n,
               busyloop_events := busyloop_events w
                  + (if continuous_zero_sleep_count w < 2 \<and> 2 \<le> continuous_zero_sleep_count w + int n
                     then 1 else 0)\<rparr>)"
    by (intro run_zero_waits) simp_all
  with a show "run_check_busyloop (replicate n (Some \<lparr>tv_sec = 0, tv_nsec = 0\<rparr>)) w
        = Some (w\<lparr>continuous_zero_sleep_count := int n,
                  busyloop_events := busyloop_events w + (if 2 \<le> n then 1 else 0)\<rparr>)"
    by simp
qed

theorem busyloop_signal_once_witness:
  "loop_check_busyloop (Some \<lparr>tv_sec = 0, tv_nsec = 1000\<rparr>)
      (idle_world\<lparr>continuous_zero_sleep_count := 5\<rparr>)
     = Some (idle_world\<lparr>continuous_zero_sleep_count := 0\<rparr>)
   \<and> map_option busyloop_events
       (run_check_busyloop (replicate 2 (Some \<lparr>tv_sec = 0, tv_nsec = 0\<rparr>)) idle_world) = Some 1
   \<and> map_option busyloop_events
       (run_check_busyloop (replicate 3 (Some \<lparr>tv_sec = 0, tv_nsec = 0\<rparr>)) idle_world) = Some 1
   \<and> map_option busyloop_events
       (run_check_busyloop (replicate 1 (Some \<lparr>tv_sec = 0, tv_nsec = 0\<rparr>)) idle_world) = Some 0"
proof -
  have c0: "continuous_zero_sleep_count idle_world = 0"
    and e0: "busyloop_events idle_world = 0"
    by (simp_all add: idle_world_def)
  have b: "int 1 \<le> INT_MAX" "int 2 \<le> INT_MAX" "int 3 \<le> INT_MAX"
    by (simp_all add: INT_MAX_def)
  have r: "tv_sec \<lparr>tv_sec = 0, tv_nsec = 1000\<rparr> \<noteq> 0 \<or> tv_nsec \<lparr>tv_sec = 0, tv_nsec = 1000\<rparr> \<noteq> 0"
    by simp
  note t = busyloop_signal_once
  from t [of "\<lparr>tv_sec = 0, tv_nsec = 1000\<rparr>" "idle_world\<lparr>continuous_zero_sleep_count := 5\<rparr>" 0] r
  have reset: "loop_check_busyloop (Some \<lparr>tv_sec = 0, tv_nsec = 1000\<rparr>)
      (idle_world\<lparr>continuous_zero_sleep_count := 5\<rparr>) = Some (idle_world\<lparr>continuous_zero_sleep_count := 0\<rparr>)"
    by simp
  from t [of ts0 idle_world 2] c0 b
  have two: "run_check_busyloop (replicate 2 (Some \<lparr>tv_sec = 0, tv_nsec = 0\<rparr>)) idle_world
        = Some (idle_world\<lparr>continuous_zero_sleep_count := int 2,
                  busyloop_events := busyloop_events idle_world + (if 2 \<le> (2::nat) then 1 else 0)\<rparr>)"
    by blast
  from t [of ts0 idle_world 3] c0 b
  have three: "run_check_busyloop (replicate 3 (Some \<lparr>tv_sec = 0, tv_nsec = 0\<rparr>)) idle_world
        = Some (idle_world\<lparr>continuous_zero_sleep_count := int 3,
                  busyloop_events := busyloop_events idle_world + (if 2 \<le> (3::nat) then 1 else 0)\<rparr>)"
    by blast
  from t [of ts0 idle_world 1] c0 b
  have one: "run_check_busyloop (replicate 1 (Some \<lparr>tv_sec = 0, tv_nsec = 0\<rparr>)) idle_world
        = Some (idle_world\<lparr>continuous_zero_sleep_count := int 1,
                  busyloop_events := busyloop_events idle_world + (if 2 \<le> (1::nat) then 1 else 0)\<rparr>)"
    by blast
  show ?thesis
    unfolding reset two three one by (simp add: e0)
qed

subsection \<open>The bound on the sleep interval\<close>

lemma timespec_after_ns:
  "timespec_ok a \<Longrightarrow> timespec_ok b \<Longrightarrow> timespec_after a b \<longleftrightarrow> timespec_ns b < timespec_ns a"
  by (auto simp: timespec_ok_def timespec_after_def timespec_ns_def)

lemma add_timespecs_ok: "timespec_ok (add_timespecs a b)"
  by (simp add: timespec_ok_def add_timespecs_def)

lemma add_timespecs_ns: "timespec_ns (add_timespecs a b) = timespec_ns a + timespec_ns b"
proof -
  have "(tv_nsec a + tv_nsec b) div 1000000000 * 1000000000 + (tv_nsec a + tv_nsec b) mod 1000000000
        = tv_nsec a + tv_nsec b"
    by simp
  then show ?thesis
    by (simp add: timespec_ns_def add_timespecs_def algebra_simps)
qed

lemma subtract_timespecs_ns:
  "timespec_ns (subtract_timespecs a b) = timespec_ns a - timespec_ns b"
  by (simp add: timespec_ns_def subtract_timespecs_def algebra_simps)

lemma subtract_timespecs_ok:
  "timespec_ok a \<Longrightarrow> timespec_ok b \<Longrightarrow> timespec_ok (subtract_timespecs a b)"
  by (auto simp: timespec_ok_def subtract_timespecs_def)

lemma stream_wake_loop_lowers:
  assumes "timespec_ok m"
      and "list_all (\<lambda>ds. case ds_next_cb_ts ds of None \<Rightarrow> True | Some t \<Rightarrow> timespec_ok t) strs"
  shows "timespec_ok (snd (stream_wake_loop w strs (ret, m)))
       \<and> timespec_ns (snd (stream_wake_loop w strs (ret, m))) \<le> timespec_ns m"
  using assms
proof (induction strs arbitrary: ret m)
  case Nil
  then show ?case by simp
next
  case (Cons ds rest)
  from Cons.prems have rest_ok:
    "list_all (\<lambda>ds. case ds_next_cb_ts ds of None \<Rightarrow> True | Some t \<Rightarrow> timespec_ok t) rest"
    by simp
  show ?case
  proof (cases "ds_next_cb_ts ds")
    case None
    then show ?thesis
      using Cons.IH [OF Cons.prems(1) rest_ok] by simp
  next
    case (Some t)
    with Cons.prems have t_ok: "timespec_ok t" by simp
    let ?m' = "if timespec_after m t then t else m"
    have m'_ok: "timespec_ok ?m'" using t_ok Cons.prems(1) by simp
    have m'_le: "timespec_ns ?m' \<le> timespec_ns m"
      using timespec_after_ns [OF Cons.prems(1) t_ok] by simp
    from Cons.IH [OF m'_ok rest_ok, of "ret + 1"] m'_le
    have "timespec_ok (snd (stream_wake_loop w rest (ret + 1, ?m')))
        \<and> timespec_ns (snd (stream_wake_loop w rest (ret + 1, ?m'))) \<le> timespec_ns m"
      by simp
    then show ?thesis
      using Cons.IH [OF Cons.prems(1) rest_ok, of ret] Some by simp
  qed
qed

lemma output_streams_loop_lowers:
  assumes "timespec_ok m"
      and "list_all (\<lambda>od. list_all (\<lambda>ds. case ds_next_cb_ts ds of None \<Rightarrow> True | Some t \<Rightarrow> timespec_ok t)
                     (streams (iodevs w (dev od)))) ods"
  shows "timespec_ok (snd (output_streams_loop w ods (ret, m)))
       \<and> timespec_ns (snd (output_streams_loop w ods (ret, m))) \<le> timespec_ns m"
  using assms
proof (induction ods arbitrary: ret m)
  case Nil
  then show ?case by simp
next
  case (Cons od rest)
  obtain n m' where g: "get_next_stream_wake_from_list w (streams (iodevs w (dev od))) m = (n, m')"
    by (cases "get_next_stream_wake_from_list w (streams (iodevs w (dev od))) m")
  from Cons.prems have here:
    "list_all (\<lambda>ds. case ds_next_cb_ts ds of None \<Rightarrow> True | Some t \<Rightarrow> timespec_ok t)
       (streams (iodevs w (dev od)))" by simp
  from stream_wake_loop_lowers [OF Cons.prems(1) here, of w 0] g
  have m': "timespec_ok m'" "timespec_ns m' \<le> timespec_ns m"
    by (simp_all add: get_next_stream_wake_from_list_def)
  from Cons.prems have rest_ok:
    "list_all (\<lambda>od. list_all (\<lambda>ds. case ds_next_cb_ts ds of None \<Rightarrow> True | Some t \<Rightarrow> timespec_ok t)
                     (streams (iodevs w (dev od)))) rest" by simp
  from Cons.IH [OF m'(1) rest_ok, of "ret + n"] m'(2)
  show ?case by (simp add: g)
qed

lemma output_devs_loop_lowers:
  assumes "timespec_ok m"
      and "list_all (\<lambda>od. timespec_ok (wake_ts od)) ods"
  shows "timespec_ok (snd (output_devs_loop w ods (ret, m)))
       \<and> timespec_ns (snd (output_devs_loop w ods (ret, m))) \<le> timespec_ns m"
  using assms
proof (induction ods arbitrary: ret m)
  case Nil
  then show ?case by simp
next
  case (Cons od rest)
  from Cons.prems have t_ok: "timespec_ok (wake_ts od)"
    and rest_ok: "list_all (\<lambda>od. timespec_ok (wake_ts od)) rest" by simp_all
  let ?m' = "if timespec_after m (wake_ts od) then wake_ts od else m"
  have m'_ok: "timespec_ok ?m'" using t_ok Cons.prems(1) by simp
  have m'_le: "timespec_ns ?m' \<le> timespec_ns m"
    using timespec_after_ns [OF Cons.prems(1) t_ok] by simp
  from Cons.IH [OF m'_ok rest_ok, of "ret + 1"] m'_le
  have "timespec_ok (snd (output_devs_loop w rest (ret + 1, ?m')))
      \<and> timespec_ns (snd (output_devs_loop w rest (ret + 1, ?m'))) \<le> timespec_ns m"
    by simp
  then show ?case
    using Cons.IH [OF Cons.prems(1) rest_ok, of ret] by simp
qed

lemma get_next_output_wake_lowers:
  assumes "timespec_ok m" and "output_times_ok w"
  shows "timespec_ok (snd (get_next_output_wake w (open_devs (thread w) CRAS_STREAM_OUTPUT) m))
       \<and> timespec_ns (snd (get_next_output_wake w (open_devs (thread w) CRAS_STREAM_OUTPUT) m))
           \<le> timespec_ns m"
proof -
  let ?ods = "open_devs (thread w) CRAS_STREAM_OUTPUT"
  from assms(2) have s_ok:
    "list_all (\<lambda>od. list_all (\<lambda>ds. case ds_next_cb_ts ds of None \<Rightarrow> True | Some t \<Rightarrow> timespec_ok t)
                     (streams (iodevs w (dev od)))) ?ods"
    and d_ok: "list_all (\<lambda>od. timespec_ok (wake_ts od)) ?ods"
    by (simp_all add: output_times_ok_def list_all_iff)
  obtain r1 m1 where l1: "output_streams_loop w ?ods (0, m) = (r1, m1)"
    by (cases "output_streams_loop w ?ods (0, m)")
  from output_streams_loop_lowers [OF assms(1) s_ok, of 0] l1
  have m1: "timespec_ok m1" "timespec_ns m1 \<le> timespec_ns m" by simp_all
  from output_devs_loop_lowers [OF m1(1) d_ok, of w r1] m1(2)
  show ?thesis by (simp add: get_next_output_wake_def l1)
qed

text \<open>
  C6: on every state whose output wake times and callback times are normalised, with a
  normalised clock reading, and with an input helper that hands back a normalised deadline
  not later than the one it received, the sleep interval \<^verbatim>\<open>ts\<close> is normalised, not negative
  and not longer than 20 seconds, the deadline \<^verbatim>\<open>min_ts\<close> is at most 20 seconds after the
  clock reading, and \<^verbatim>\<open>ts\<close> is \<open>max (min_ts - now) 0\<close>.
\<close>

theorem sleep_interval_bounded:
  assumes now_ok: "timespec_ok now"
      and out_ok: "output_times_ok w"
      and helper: "\<And>m. timespec_ok m \<Longrightarrow>
          timespec_ok (snd (input_wake (open_devs (thread w) CRAS_STREAM_INPUT) m))
          \<and> timespec_ns (snd (input_wake (open_devs (thread w) CRAS_STREAM_INPUT) m)) \<le> timespec_ns m"
  shows "fst (fill_next_sleep_interval input_wake now w) = fst (next_wake_deadline input_wake now w)
     \<and> timespec_ns (snd (next_wake_deadline input_wake now w)) \<le> timespec_ns now + 20000000000
     \<and> timespec_ok (snd (fill_next_sleep_interval input_wake now w))
     \<and> 0 \<le> tv_sec (snd (fill_next_sleep_interval input_wake now w))
     \<and> \<not> timespec_after (snd (fill_next_sleep_interval input_wake now w)) \<lparr>tv_sec = 20, tv_nsec = 0\<rparr>
     \<and> timespec_ns (snd (fill_next_sleep_interval input_wake now w))
         = max (timespec_ns (snd (next_wake_deadline input_wake now w)) - timespec_ns now) 0"
proof -
  let ?m0 = "add_timespecs \<lparr>tv_sec = 20, tv_nsec = 0\<rparr> now"
  have m0_ok: "timespec_ok ?m0" by (rule add_timespecs_ok)
  have m0_ns: "timespec_ns ?m0 = timespec_ns now + 20000000000"
    by (simp add: add_timespecs_ns) (simp add: timespec_ns_def)
  obtain r1 m1 where o: "get_next_output_wake w (open_devs (thread w) CRAS_STREAM_OUTPUT) ?m0 = (r1, m1)"
    by (cases "get_next_output_wake w (open_devs (thread w) CRAS_STREAM_OUTPUT) ?m0")
  from get_next_output_wake_lowers [OF m0_ok out_ok] o
  have m1: "timespec_ok m1" "timespec_ns m1 \<le> timespec_ns ?m0" by simp_all
  obtain r2 m2 where i: "input_wake (open_devs (thread w) CRAS_STREAM_INPUT) m1 = (r2, m2)"
    by (cases "input_wake (open_devs (thread w) CRAS_STREAM_INPUT) m1")
  from helper [OF m1(1)] i
  have m2: "timespec_ok m2" "timespec_ns m2 \<le> timespec_ns m1" by simp_all
  have dl: "next_wake_deadline input_wake now w = (r1 + r2, m2)"
    by (simp add: next_wake_deadline_def Let_def o i)
  let ?ts = "if timespec_after m2 now then subtract_timespecs m2 now else \<lparr>tv_sec = 0, tv_nsec = 0\<rparr>"
  have fl: "fill_next_sleep_interval input_wake now w = (r1 + r2, ?ts)"
    by (simp add: fill_next_sleep_interval_def dl)
  have bound: "timespec_ns m2 \<le> timespec_ns now + 20000000000"
    using m2(2) m1(2) m0_ns by simp
  have after: "timespec_after m2 now \<longleftrightarrow> timespec_ns now < timespec_ns m2"
    by (rule timespec_after_ns [OF m2(1) now_ok])
  have ts_ok: "timespec_ok ?ts"
    using subtract_timespecs_ok [OF m2(1) now_ok] by (simp add: timespec_ok_def)
  have ts_ns: "timespec_ns ?ts = max (timespec_ns m2 - timespec_ns now) 0"
    using after by (simp add: subtract_timespecs_ns) (simp add: timespec_ns_def)
  have ts_le: "timespec_ns ?ts \<le> 20000000000" and ts_ge: "0 \<le> timespec_ns ?ts"
    using ts_ns bound by simp_all
  have sec_ge: "0 \<le> tv_sec ?ts"
  proof (rule ccontr)
    assume "\<not> 0 \<le> tv_sec ?ts"
    then have "tv_sec ?ts \<le> - 1" by simp
    then have "tv_sec ?ts * 1000000000 \<le> - 1000000000" by simp
    with ts_ok have "timespec_ns ?ts < 0"
      unfolding timespec_ns_def timespec_ok_def by linarith
    with ts_ge show False by simp
  qed
  have twenty_ok: "timespec_ok \<lparr>tv_sec = 20, tv_nsec = 0\<rparr>"
    by (simp add: timespec_ok_def)
  have not_after: "\<not> timespec_after ?ts \<lparr>tv_sec = 20, tv_nsec = 0\<rparr>"
    using ts_le unfolding timespec_after_ns [OF ts_ok twenty_ok]
    by (simp add: timespec_ns_def)
  show ?thesis
    unfolding fl dl using bound ts_ok sec_ge not_after ts_ns by simp
qed

theorem sleep_interval_bounded_witness:
  "fill_next_sleep_interval (\<lambda>idevs m. (0, m)) \<lparr>tv_sec = 100, tv_nsec = 0\<rparr> playing_world
     = (1, \<lparr>tv_sec = 0, tv_nsec = 5000000\<rparr>)
   \<and> snd (fill_next_sleep_interval (\<lambda>idevs m. (0, m)) \<lparr>tv_sec = 100, tv_nsec = 0\<rparr> idle_world)
     = \<lparr>tv_sec = 20, tv_nsec = 0\<rparr>
   \<and> \<not> timespec_after
         (snd (fill_next_sleep_interval (\<lambda>idevs m. (0, m)) \<lparr>tv_sec = 100, tv_nsec = 0\<rparr> playing_world))
         \<lparr>tv_sec = 20, tv_nsec = 0\<rparr>"
proof -
  have now_ok: "timespec_ok \<lparr>tv_sec = 100, tv_nsec = 0\<rparr>"
    by (simp add: timespec_ok_def)
  have out_ok: "output_times_ok playing_world"
    by (simp add: output_times_ok_def playing_world_def timespec_ok_def bound_stream_def
        blank_dev_stream_def empty_dev_def)
  have helper: "timespec_ok (snd ((\<lambda>idevs m. (0::int, m)) (open_devs (thread playing_world) CRAS_STREAM_INPUT) m))
      \<and> timespec_ns (snd ((\<lambda>idevs m. (0::int, m)) (open_devs (thread playing_world) CRAS_STREAM_INPUT) m))
          \<le> timespec_ns m" if "timespec_ok m" for m
    using that by simp
  have v1: "fill_next_sleep_interval (\<lambda>idevs m. (0, m)) \<lparr>tv_sec = 100, tv_nsec = 0\<rparr> playing_world
     = (1, \<lparr>tv_sec = 0, tv_nsec = 5000000\<rparr>)"
    by (simp add: fill_next_sleep_interval_def next_wake_deadline_def get_next_output_wake_def
        get_next_stream_wake_from_list_def playing_world_def add_timespecs_def subtract_timespecs_def
        timespec_after_def bound_stream_def blank_dev_stream_def empty_dev_def plain_stream_def)
  have v2: "snd (fill_next_sleep_interval (\<lambda>idevs m. (0, m)) \<lparr>tv_sec = 100, tv_nsec = 0\<rparr> idle_world)
     = \<lparr>tv_sec = 20, tv_nsec = 0\<rparr>"
    by (simp add: fill_next_sleep_interval_def next_wake_deadline_def get_next_output_wake_def
        idle_world_def add_timespecs_def subtract_timespecs_def timespec_after_def)
  from sleep_interval_bounded [of "\<lparr>tv_sec = 100, tv_nsec = 0\<rparr>" playing_world "\<lambda>idevs m. (0, m)",
      OF now_ok out_ok helper]
  have "\<not> timespec_after
         (snd (fill_next_sleep_interval (\<lambda>idevs m. (0, m)) \<lparr>tv_sec = 100, tv_nsec = 0\<rparr> playing_world))
         \<lparr>tv_sec = 20, tv_nsec = 0\<rparr>"
    by blast
  with v1 v2 show ?thesis by blast
qed

subsection \<open>The reset of the longest wake by a dump\<close>

lemma dump_dev_streams_tracked:
  "wake_tracked L (di, w) \<Longrightarrow> wake_tracked L (dump_dev_streams mx idx strs (di, w))"
proof (induction strs arbitrary: di w)
  case Nil
  then show ?case by simp
next
  case (Cons cur rest)
  have "wake_tracked L (append_stream_dump_info cur idx (di\<lparr>num_streams := num_streams di + 1\<rparr>, w))"
    by (simp add: wake_tracked_def append_stream_dump_info_def)
  then have "wake_tracked L (dump_dev_streams mx idx rest
      (append_stream_dump_info cur idx (di\<lparr>num_streams := num_streams di + 1\<rparr>, w)))"
    by (cases "append_stream_dump_info cur idx (di\<lparr>num_streams := num_streams di + 1\<rparr>, w)")
       (simp add: Cons.IH)
  with Cons.prems show ?case by simp
qed

lemma append_dev_tracked:
  "wake_tracked L iw \<Longrightarrow> wake_tracked L (append_dev_dump_info adev iw)"
  by (cases iw) (simp add: wake_tracked_def append_dev_dump_info_def)

lemma dump_output_devs_tracked:
  "wake_tracked L iw \<Longrightarrow> wake_tracked L (dump_output_devs md ms ods iw)"
proof (induction ods arbitrary: iw)
  case Nil
  then show ?case by simp
next
  case (Cons adev rest)
  obtain di w where a: "append_dev_dump_info adev iw = (di, w)"
    by (cases "append_dev_dump_info adev iw")
  from append_dev_tracked [OF Cons.prems, of adev] a
  have t: "wake_tracked L (di, w)" by simp
  then have t1: "wake_tracked L (di\<lparr>num_devs := num_devs di + 1\<rparr>, w)"
    by (simp add: wake_tracked_def)
  from dump_dev_streams_tracked [OF t1]
  have "wake_tracked L (dump_dev_streams ms (info_idx (iodevs w (dev adev)))
      (streams (iodevs w (dev adev))) (di\<lparr>num_devs := num_devs di + 1\<rparr>, w))" .
  from Cons.IH [OF this]
  have go_on: "wake_tracked L (dump_output_devs md ms rest
      (dump_dev_streams ms (info_idx (iodevs w (dev adev)))
         (streams (iodevs w (dev adev))) (di\<lparr>num_devs := num_devs di + 1\<rparr>, w)))" .
  show ?case
  proof (cases "num_devs di + 1 = md")
    case True
    then have "dump_output_devs md ms (adev # rest) iw = (di\<lparr>num_devs := num_devs di + 1\<rparr>, w)"
      by (simp add: a Let_def)
    with t1 show ?thesis by simp
  next
    case False
    then have "dump_output_devs md ms (adev # rest) iw = dump_output_devs md ms rest
      (dump_dev_streams ms (info_idx (iodevs w (dev adev)))
         (streams (iodevs w (dev adev))) (di\<lparr>num_devs := num_devs di + 1\<rparr>, w))"
      by (simp add: a Let_def)
    with go_on show ?thesis by simp
  qed
qed

lemma dump_input_devs_tracked:
  "wake_tracked L iw \<Longrightarrow> wake_tracked L (dump_input_devs md ms ods iw)"
proof (induction ods arbitrary: iw)
  case Nil
  then show ?case by simp
next
  case (Cons adev rest)
  obtain di w where iw: "iw = (di, w)" by (cases iw)
  obtain di1 w1 where d: "dump_dev_streams ms (info_idx (iodevs w (dev adev)))
      (streams (iodevs w (dev adev))) (append_dev_dump_info adev (di, w)) = (di1, w1)"
    by (cases "dump_dev_streams ms (info_idx (iodevs w (dev adev)))
      (streams (iodevs w (dev adev))) (append_dev_dump_info adev (di, w))")
  from Cons.prems iw have "wake_tracked L (append_dev_dump_info adev (di, w))"
    by (simp add: append_dev_tracked)
  then have "wake_tracked L (di1, w1)"
    using d by (cases "append_dev_dump_info adev (di, w)") (metis dump_dev_streams_tracked)
  then have "wake_tracked L (di1\<lparr>num_devs := num_devs di1 + 1\<rparr>, w1)"
    by (simp add: wake_tracked_def)
  from Cons.IH [OF this] Cons.prems show ?case
    by (simp add: iw d)
qed

lemma dump_thread_info_longest_wake:
  "longest_wake (snd (snd (dump_thread_info md ms w)))
     = (if info_streams (fst (snd (dump_thread_info md ms w))) = [] then longest_wake w
        else \<lparr>tv_sec = 0, tv_nsec = 0\<rparr>)"
proof -
  let ?init = "(\<lparr>info_devs = [], info_streams = [], num_devs = 0, num_streams = 0\<rparr>, w)"
  have "wake_tracked (longest_wake w) ?init"
    by (simp add: wake_tracked_def)
  then have "wake_tracked (longest_wake w)
      (dump_input_devs md ms (open_devs (thread w) CRAS_STREAM_INPUT)
         (dump_output_devs md ms (open_devs (thread w) CRAS_STREAM_OUTPUT) ?init))"
    by (intro dump_input_devs_tracked dump_output_devs_tracked)
  then show ?thesis
    by (simp add: dump_thread_info_def wake_tracked_def split: prod.splits)
qed

lemma dump_with_stream_resets:
  "longest_wake (snd (snd (dump_thread_info 4 8
        (two_outputs_world\<lparr>longest_wake := \<lparr>tv_sec = 0, tv_nsec = 5000000\<rparr>\<rparr>))))
       = \<lparr>tv_sec = 0, tv_nsec = 0\<rparr>"
  by (simp add: dump_thread_info_def two_outputs_world_def empty_dev_def append_dev_dump_info_def
      append_stream_dump_info_def bound_stream_def blank_dev_stream_def)

text \<open>
  C9 at a failing input: the worker has one open output device, device 2, without streams,
  and \<^verbatim>\<open>longest_wake\<close> is 5 ms. The dump replies 0 and records the device, and
  \<^verbatim>\<open>longest_wake\<close> is still 5 ms afterwards: the reset is part of the stream entry, and no
  stream entry is written.
\<close>

theorem dump_without_streams_keeps_longest_wake:
  "streams (iodevs one_output_world 2) = []
   \<and> fst (dump_thread_info 4 8 (one_output_world\<lparr>longest_wake := \<lparr>tv_sec = 0, tv_nsec = 5000000\<rparr>\<rparr>)) = 0
   \<and> info_devs (fst (snd (dump_thread_info 4 8
        (one_output_world\<lparr>longest_wake := \<lparr>tv_sec = 0, tv_nsec = 5000000\<rparr>\<rparr>)))) = [2]
   \<and> longest_wake (snd (snd (dump_thread_info 4 8
        (one_output_world\<lparr>longest_wake := \<lparr>tv_sec = 0, tv_nsec = 5000000\<rparr>\<rparr>))))
       = \<lparr>tv_sec = 0, tv_nsec = 5000000\<rparr>"
  by (simp add: dump_thread_info_def one_output_world_def empty_dev_def append_dev_dump_info_def)

subsection \<open>Removing a device that is not open\<close>

text \<open>
  C8, as stated: removing a device that is absent from the open list of its direction replies
  with the NotFound kind. On the idle worker, where no device is open, the reply for device 1
  is \<open>- EINVAL\<close>, whose kind is InvalidArg and not NotFound.
\<close>

theorem rm_open_dev_absent_not_NotFound:
  "dev_io_find_open_dev (open_devs (thread idle_world) (dev_direction (iodevs idle_world 1))) 1 = None
   \<and> error_kind_of (fst (thread_rm_open_dev 1 idle_world)) \<noteq> Some NotFound"
  by (simp add: thread_rm_open_dev_def dev_io_find_open_dev_def search_open_dev_def idle_world_def
      empty_dev_def error_kind_of_def EINVAL_def ENOENT_def EEXIST_def)

text \<open>
  C8, amended: removing a device that is absent from the open list of its direction replies
  \<open>- EINVAL\<close>, the InvalidArg kind, and leaves the whole state, so also both open-device lists,
  unchanged.
\<close>

theorem rm_open_dev_absent_EINVAL:
  assumes "dev_io_find_open_dev (open_devs (thread w) (dev_direction (iodevs w iodev))) iodev = None"
  shows "thread_rm_open_dev iodev w = (- EINVAL, w)
         \<and> error_kind_of (fst (thread_rm_open_dev iodev w)) = Some InvalidArg"
  using assms
  by (simp add: thread_rm_open_dev_def error_kind_of_def EINVAL_def ENOENT_def EEXIST_def)

theorem rm_open_dev_absent_EINVAL_witness:
  "thread_rm_open_dev 1 idle_world = (- EINVAL, idle_world)
   \<and> error_kind_of (fst (thread_rm_open_dev 1 idle_world)) = Some InvalidArg"
proof -
  have absent: "dev_io_find_open_dev
      (open_devs (thread idle_world) (dev_direction (iodevs idle_world 1))) 1 = None"
    by (simp add: dev_io_find_open_dev_def search_open_dev_def idle_world_def)
  show ?thesis
    by (rule rm_open_dev_absent_EINVAL [OF absent])
qed

end
